theory Spec2Isabelle
  imports
    Main
    "HOL-Library.Word"
    "HOL-Library.Signed_Division"
    "HOL-Library.Log_Nat"
begin

unbundle bit_operations_syntax

section \<open>The fixed interval timer handler of finalproject.c\<close>

text \<open>
  The target is a 32-bit MicroBlaze: \<open>u32\<close>, \<open>unsigned int\<close> and \<open>unsigned long\<close> are
  32-bit words. The C \<open>int\<close> variables \<open>ts_interval\<close> and \<open>phase_diff\<close> are kept as
  mathematical integers; the handler never takes them out of the range of a 32-bit
  \<open>int\<close> (\<open>ts_interval\<close> stays at most one above its previous value and is reset at 41,
  \<open>phase_diff\<close> is only written under the guard \<open>diff \<le> 25000\<close>).
\<close>

type_synonym u32 = "32 word"

definition FIT_COUNT_1MSEC :: int where
  "FIT_COUNT_1MSEC = 40"

definition SERVO_NEUTRAL_FREQ :: int where
  "SERVO_NEUTRAL_FREQ = 50"

definition SERVO_NEUTRAL_DUTY :: int where
  "SERVO_NEUTRAL_DUTY = 7"

text \<open>
  The variables the handler reads and writes: the globals \<open>clkfit\<close>, \<open>timestamp\<close> and
  \<open>phase_diff\<close>, the handler's static \<open>ts_interval\<close>, and the value last written to the
  output channel of GPIO 0.
\<close>

record fit_state =
  clkfit :: u32
  timestamp :: u32
  ts_interval :: int
  phase_diff :: int
  gpio_out :: u32

text \<open>
  The state at the first interrupt: \<open>timestamp\<close> and \<open>ts_interval\<close> are zero-initialised
  statics, \<open>phase_diff\<close> is initialised to 0, and \<open>main\<close> sets \<open>clkfit\<close> to 0 before it
  enables interrupts.
\<close>

definition FIT_init :: fit_state where
  "FIT_init = \<lparr>clkfit = 0, timestamp = 0, ts_interval = 0, phase_diff = 0, gpio_out = 0\<rparr>"

text \<open>
  One invocation of \<open>FIT_Handler\<close>; \<open>time1_count\<close> and \<open>time2_count\<close> are the two values
  read from GPIO 1. The two \<open>return\<close> statements of the source leave the handler after
  the clock toggle and the timestamp update, with \<open>phase_diff\<close> as it was.
\<close>

definition FIT_Handler :: "fit_state \<Rightarrow> u32 \<Rightarrow> u32 \<Rightarrow> fit_state" where
  "FIT_Handler s time1_count time2_count =
    (let c = clkfit s XOR 1;
         s1 = s\<lparr>clkfit := c, gpio_out := c\<rparr>;
         t = ts_interval s1 + 1;
         s2 = (if t > FIT_COUNT_1MSEC
               then s1\<lparr>timestamp := timestamp s1 + 1, ts_interval := 1\<rparr>
               else s1\<lparr>ts_interval := t\<rparr>)
     in if time1_count > time2_count then
          (if time1_count - time2_count > 25000 then s2
           else s2\<lparr>phase_diff := sint (time1_count - time2_count) * 1\<rparr>)
        else if time2_count > time1_count then
          (if time2_count - time1_count > 25000 then s2
           else s2\<lparr>phase_diff := sint (time2_count - time1_count) * (- 1)\<rparr>)
        else s2)"

text \<open>A sequence of interrupt firings, one pair of counter readings per firing.\<close>

fun FIT_run :: "fit_state \<Rightarrow> (u32 \<times> u32) list \<Rightarrow> fit_state" where
  "FIT_run s [] = s"
| "FIT_run s ((a, b) # xs) = FIT_run (FIT_Handler s a b) xs"

section \<open>The steering policy of the main loop\<close>

text \<open>
  Line 181 of finalproject.c: \<open>pwm_duty = phase_diff * 4 / 25000 + SERVO_NEUTRAL_DUTY\<close>.
  C's \<open>/\<close> on \<open>int\<close> truncates towards zero, which is \<open>sdiv\<close>. The product stays inside
  a 32-bit \<open>int\<close> for every \<open>phase_diff\<close> the handler can publish.
\<close>

definition steering_duty :: "int \<Rightarrow> int" where
  "steering_duty p = p * 4 sdiv 25000 + SERVO_NEUTRAL_DUTY"

text \<open>The range of duty cycles the PWM driver accepts, in percent.\<close>

definition clamp_duty :: "int \<Rightarrow> int" where
  "clamp_duty x = max 0 (min 100 x)"


section \<open>Floating point arithmetic of pwm_tmrctr.c\<close>

text \<open>
  The driver computes in C \<open>float\<close> and \<open>double\<close>. The model follows IEEE 754 binary32
  and binary64 with round-to-nearest, ties-to-even, each operation evaluated in the type
  C gives it (a \<open>float\<close> operand meeting a \<open>double\<close> constant is computed in \<open>double\<close>,
  then rounded again when it is stored in a \<open>float\<close>). A finite value is the rational
  number it stands for. The sign of a zero is not kept: every zero divisor in the driver
  comes from the conversion of an unsigned integer and is +0.
\<close>

datatype fl = Fin rat | PInf | NInf | NaN

definition pow2 :: "int \<Rightarrow> rat" where
  "pow2 e = (if 0 \<le> e then 2 ^ nat e else 1 / 2 ^ nat (- e))"

text \<open>The binary exponent of a positive rational: \<open>pow2 (ilog2 x) \<le> x < pow2 (ilog2 x + 1)\<close>.\<close>

definition ilog2 :: "rat \<Rightarrow> int" where
  "ilog2 x =
    (let (a, b) = quotient_of x;
         e = bitlen a - bitlen b
     in if pow2 e \<le> x then e else e - 1)"

definition round_half_even :: "rat \<Rightarrow> int" where
  "round_half_even x =
    (let f = \<lfloor>x\<rfloor>; r = x - of_int f
     in if r < 1 / 2 then f else if 1 / 2 < r then f + 1 else if even f then f else f + 1)"

text \<open>
  A binary format: the number of significand bits and the exponents of the smallest and
  the largest normal binade.
\<close>

record fl_format =
  precision :: nat
  emin :: int
  emax :: int

definition binary32 :: fl_format where
  "binary32 = \<lparr>precision = 24, emin = - 126, emax = 127\<rparr>"

definition binary64 :: fl_format where
  "binary64 = \<lparr>precision = 53, emin = - 1022, emax = 1023\<rparr>"

text \<open>
  Rounding a rational to the format: the significand is rounded at the quantum of the
  value's binade (of the lowest binade for a subnormal), and a result beyond the largest
  finite number is an infinity.
\<close>

definition fl_round :: "fl_format \<Rightarrow> rat \<Rightarrow> fl" where
  "fl_round fmt x =
    (if x = 0 then Fin 0
     else
       let a = \<bar>x\<bar>;
           e = max (ilog2 a) (emin fmt);
           q = pow2 (e - int (precision fmt) + 1);
           y = of_int (round_half_even (a / q)) * q
       in if pow2 (emax fmt + 1) \<le> y then (if 0 < x then PInf else NInf)
          else Fin (sgn x * y))"

definition fl_inf :: "bool \<Rightarrow> fl" where
  "fl_inf positive = (if positive then PInf else NInf)"

definition fl_neg :: "fl \<Rightarrow> fl" where
  "fl_neg a = (case a of Fin x \<Rightarrow> Fin (- x) | PInf \<Rightarrow> NInf | NInf \<Rightarrow> PInf | NaN \<Rightarrow> NaN)"

fun fl_add :: "fl_format \<Rightarrow> fl \<Rightarrow> fl \<Rightarrow> fl" where
  "fl_add fmt NaN b = NaN"
| "fl_add fmt a NaN = NaN"
| "fl_add fmt (Fin x) (Fin y) = fl_round fmt (x + y)"
| "fl_add fmt (Fin x) b = b"
| "fl_add fmt a (Fin y) = a"
| "fl_add fmt PInf PInf = PInf"
| "fl_add fmt NInf NInf = NInf"
| "fl_add fmt a b = NaN"

definition fl_sub :: "fl_format \<Rightarrow> fl \<Rightarrow> fl \<Rightarrow> fl" where
  "fl_sub fmt a b = fl_add fmt a (fl_neg b)"

fun fl_mul :: "fl_format \<Rightarrow> fl \<Rightarrow> fl \<Rightarrow> fl" where
  "fl_mul fmt NaN b = NaN"
| "fl_mul fmt a NaN = NaN"
| "fl_mul fmt (Fin x) (Fin y) = fl_round fmt (x * y)"
| "fl_mul fmt (Fin x) b = (if x = 0 then NaN else fl_inf ((0 < x) = (b = PInf)))"
| "fl_mul fmt a (Fin y) = (if y = 0 then NaN else fl_inf ((0 < y) = (a = PInf)))"
| "fl_mul fmt a b = fl_inf (a = b)"

text \<open>
  Division: a finite nonzero number over zero is an infinity, zero over zero and
  infinity over infinity are NaN; nothing traps.
\<close>

fun fl_div :: "fl_format \<Rightarrow> fl \<Rightarrow> fl \<Rightarrow> fl" where
  "fl_div fmt NaN b = NaN"
| "fl_div fmt a NaN = NaN"
| "fl_div fmt (Fin x) (Fin y) =
     (if y = 0 then (if x = 0 then NaN else fl_inf (0 < x)) else fl_round fmt (x / y))"
| "fl_div fmt (Fin x) b = Fin 0"
| "fl_div fmt a (Fin y) = fl_inf ((0 \<le> y) = (a = PInf))"
| "fl_div fmt a b = NaN"

text \<open>The comparison \<open>a < b\<close>; it is false when either side is NaN.\<close>

fun fl_less :: "fl \<Rightarrow> fl \<Rightarrow> bool" where
  "fl_less NaN b = False"
| "fl_less a NaN = False"
| "fl_less (Fin x) (Fin y) = (x < y)"
| "fl_less a PInf = (a \<noteq> PInf)"
| "fl_less NInf b = (b \<noteq> NInf)"
| "fl_less a b = False"

definition fl_finite :: "fl \<Rightarrow> bool" where
  "fl_finite a = (case a of Fin x \<Rightarrow> True | _ \<Rightarrow> False)"

text \<open>Conversion between the formats, and from an unsigned 32-bit integer.\<close>

definition fl_convert :: "fl_format \<Rightarrow> fl \<Rightarrow> fl" where
  "fl_convert fmt a = (case a of Fin x \<Rightarrow> fl_round fmt x | _ \<Rightarrow> a)"

definition fl_of_u32 :: "fl_format \<Rightarrow> u32 \<Rightarrow> fl" where
  "fl_of_u32 fmt w = fl_round fmt (of_int (uint w))"

text \<open>
  C leaves two results open: the conversion \<open>(u32) x\<close> of a \<open>float\<close> whose truncation
  is not a \<open>u32\<close> (undefined), and \<open>lroundf x\<close> when the rounded value is not a
  \<open>long\<close> (unspecified). The target decides both; the model takes its two choices as
  parameters, so that every theorem holds for every target.
\<close>

record fp_target =
  u32_cast_undefined :: "fl \<Rightarrow> u32"
  lroundf_unspecified :: "fl \<Rightarrow> int"

definition u32_of_fl :: "fp_target \<Rightarrow> fl \<Rightarrow> u32" where
  "u32_of_fl tg a =
    (case a of
       Fin x \<Rightarrow>
         if - 1 < x \<and> x < 2 ^ 32 then word_of_int (if 0 \<le> x then \<lfloor>x\<rfloor> else \<lceil>x\<rceil>)
         else u32_cast_undefined tg a
     | _ \<Rightarrow> u32_cast_undefined tg a)"

definition round_half_away :: "rat \<Rightarrow> int" where
  "round_half_away x = (if 0 \<le> x then \<lfloor>x + 1 / 2\<rfloor> else \<lceil>x - 1 / 2\<rceil>)"

text \<open>\<open>lroundf\<close>, with the 32-bit \<open>long\<close> of the MicroBlaze.\<close>

definition lroundf :: "fp_target \<Rightarrow> fl \<Rightarrow> int" where
  "lroundf tg a =
    (case a of
       Fin x \<Rightarrow>
         let n = round_half_away x
         in if - (2 ^ 31) \<le> n \<and> n < 2 ^ 31 then n else lroundf_unspecified tg a
     | _ \<Rightarrow> lroundf_unspecified tg a)"

text \<open>
  For the error analysis: one rounding to 24 or more bits changes a positive normal
  number by a factor between \<open>1 / fl_beta\<close> and \<open>fl_beta\<close>, and \<open>rel_err k x y\<close>
  says that \<open>y\<close> is within \<open>k\<close> such factors of the positive number \<open>x\<close>.
\<close>

definition fl_beta :: rat where
  "fl_beta = 1 + 1 / 2 ^ 23"

definition rel_err :: "nat \<Rightarrow> rat \<Rightarrow> rat \<Rightarrow> bool" where
  "rel_err k x y = (0 < x \<and> x \<le> y * fl_beta ^ k \<and> y \<le> x * fl_beta ^ k)"


section \<open>The PWM driver of pwm_tmrctr.c\<close>

text \<open>The status codes of xstatus.h that the driver returns.\<close>

datatype XStatus =
  XST_SUCCESS | XST_FAILURE | XST_DEVICE_NOT_FOUND | XST_DEVICE_IS_STARTED | XST_INVALID_PARAM

datatype timer = PWM_PERIOD_TIMER | PWM_DUTY_TIMER

datatype timer_reg = TCSR | TLR

datatype bus_access = Reg_Read timer timer_reg | Reg_Write timer timer_reg u32

text \<open>
  Modelled from the spec: the timer/counter peripheral and the Xilinx macros that reach
  it (section 6: a load register and a control/status register per channel, with
  \<open>read_load\<close>, \<open>write_load\<close>, \<open>read_control\<close>, \<open>write_control\<close>, \<open>set_reset\<close> and \<open>disable\<close>).
  Their C text is in the Xilinx headers xtmrctr.h, xtmrctr_l.h and xil_types.h, which are
  not among the sources. The registers are storage: the model records what the driver
  reads and writes, in order, and not how the counters react. The bit masks are those of
  the AXI timer's control/status register.
\<close>

definition XIL_COMPONENT_IS_READY :: u32 where
  "XIL_COMPONENT_IS_READY = 0x11111111"

definition XTC_CSR_ENABLE_ALL_MASK :: u32 where
  "XTC_CSR_ENABLE_ALL_MASK = 0x400"

definition XTC_CSR_ENABLE_PWM_MASK :: u32 where
  "XTC_CSR_ENABLE_PWM_MASK = 0x200"

definition XTC_CSR_ENABLE_TMR_MASK :: u32 where
  "XTC_CSR_ENABLE_TMR_MASK = 0x80"

definition XTC_CSR_ENABLE_INT_MASK :: u32 where
  "XTC_CSR_ENABLE_INT_MASK = 0x40"

definition XTC_CSR_LOAD_MASK :: u32 where
  "XTC_CSR_LOAD_MASK = 0x20"

definition XTC_CSR_AUTO_RELOAD_MASK :: u32 where
  "XTC_CSR_AUTO_RELOAD_MASK = 0x10"

definition XTC_CSR_EXT_GENERATE_MASK :: u32 where
  "XTC_CSR_EXT_GENERATE_MASK = 0x04"

definition XTC_CSR_DOWN_COUNT_MASK :: u32 where
  "XTC_CSR_DOWN_COUNT_MASK = 0x02"

text \<open>
  The state the driver works on: the \<open>IsReady\<close> field of the \<open>XTmrCtr\<close> instance, the
  two registers of each timer, the file-level \<open>float clock_frequency\<close>, and the log of
  register accesses.
\<close>

record pwm_state =
  IsReady :: u32
  TCSR0 :: u32
  TLR0 :: u32
  TCSR1 :: u32
  TLR1 :: u32
  clock_frequency :: fl
  bus :: "bus_access list"

fun get_reg :: "pwm_state \<Rightarrow> timer \<Rightarrow> timer_reg \<Rightarrow> u32" where
  "get_reg d PWM_PERIOD_TIMER TCSR = TCSR0 d"
| "get_reg d PWM_PERIOD_TIMER TLR = TLR0 d"
| "get_reg d PWM_DUTY_TIMER TCSR = TCSR1 d"
| "get_reg d PWM_DUTY_TIMER TLR = TLR1 d"

fun put_reg :: "pwm_state \<Rightarrow> timer \<Rightarrow> timer_reg \<Rightarrow> u32 \<Rightarrow> pwm_state" where
  "put_reg d PWM_PERIOD_TIMER TCSR v = d\<lparr>TCSR0 := v\<rparr>"
| "put_reg d PWM_PERIOD_TIMER TLR v = d\<lparr>TLR0 := v\<rparr>"
| "put_reg d PWM_DUTY_TIMER TCSR v = d\<lparr>TCSR1 := v\<rparr>"
| "put_reg d PWM_DUTY_TIMER TLR v = d\<lparr>TLR1 := v\<rparr>"

definition XTmrCtr_ReadReg :: "pwm_state \<Rightarrow> timer \<Rightarrow> timer_reg \<Rightarrow> u32 \<times> pwm_state" where
  "XTmrCtr_ReadReg d t r = (get_reg d t r, d\<lparr>bus := bus d @ [Reg_Read t r]\<rparr>)"

definition XTmrCtr_WriteReg :: "pwm_state \<Rightarrow> timer \<Rightarrow> timer_reg \<Rightarrow> u32 \<Rightarrow> pwm_state" where
  "XTmrCtr_WriteReg d t r v = (put_reg d t r v)\<lparr>bus := bus d @ [Reg_Write t r v]\<rparr>"

definition XTmrCtr_SetControlStatusReg :: "pwm_state \<Rightarrow> timer \<Rightarrow> u32 \<Rightarrow> pwm_state" where
  "XTmrCtr_SetControlStatusReg d t v = XTmrCtr_WriteReg d t TCSR v"

definition XTmrCtr_GetControlStatusReg :: "pwm_state \<Rightarrow> timer \<Rightarrow> u32 \<times> pwm_state" where
  "XTmrCtr_GetControlStatusReg d t = XTmrCtr_ReadReg d t TCSR"

definition XTmrCtr_SetLoadReg :: "pwm_state \<Rightarrow> timer \<Rightarrow> u32 \<Rightarrow> pwm_state" where
  "XTmrCtr_SetLoadReg d t v = XTmrCtr_WriteReg d t TLR v"

definition XTmrCtr_GetLoadReg :: "pwm_state \<Rightarrow> timer \<Rightarrow> u32 \<times> pwm_state" where
  "XTmrCtr_GetLoadReg d t = XTmrCtr_ReadReg d t TLR"

definition XTmrCtr_LoadTimerCounterReg :: "pwm_state \<Rightarrow> timer \<Rightarrow> pwm_state" where
  "XTmrCtr_LoadTimerCounterReg d t =
    (let (v, d1) = XTmrCtr_ReadReg d t TCSR
     in XTmrCtr_WriteReg d1 t TCSR (v OR XTC_CSR_LOAD_MASK))"

definition XTmrCtr_Disable :: "pwm_state \<Rightarrow> timer \<Rightarrow> pwm_state" where
  "XTmrCtr_Disable d t =
    (let (v, d1) = XTmrCtr_ReadReg d t TCSR
     in XTmrCtr_WriteReg d1 t TCSR (v AND NOT XTC_CSR_ENABLE_TMR_MASK))"

text \<open>
  Modelled from the spec: \<open>XTmrCtr_Initialize\<close> of the Xilinx driver, which is not among
  the sources. It fails with \<open>DeviceNotFound\<close> when the device does not exist and with
  \<open>AlreadyStarted\<close> when a timer is already enabled (section 4.2); otherwise, as the
  comment at its call says, it clears both timers' registers and marks the instance
  ready. \<open>found\<close> stands for the lookup of the device id.
\<close>

definition XTmrCtr_Initialize :: "bool \<Rightarrow> pwm_state \<Rightarrow> XStatus \<times> pwm_state" where
  "XTmrCtr_Initialize found d =
    (if \<not> found then (XST_DEVICE_NOT_FOUND, d)
     else
       let (c0, d1) = XTmrCtr_ReadReg d PWM_PERIOD_TIMER TCSR;
           (c1, d2) = XTmrCtr_ReadReg d1 PWM_DUTY_TIMER TCSR
       in if c0 AND XTC_CSR_ENABLE_TMR_MASK \<noteq> 0 \<or> c1 AND XTC_CSR_ENABLE_TMR_MASK \<noteq> 0
          then (XST_DEVICE_IS_STARTED, d2)
          else
            let d3 = XTmrCtr_WriteReg d2 PWM_PERIOD_TIMER TLR 0;
                d4 = XTmrCtr_WriteReg d3 PWM_PERIOD_TIMER TCSR 0;
                d5 = XTmrCtr_WriteReg d4 PWM_DUTY_TIMER TLR 0;
                d6 = XTmrCtr_WriteReg d5 PWM_DUTY_TIMER TCSR 0
            in (XST_SUCCESS, d6\<lparr>IsReady := XIL_COMPONENT_IS_READY\<rparr>))"

text \<open>\<open>PWM_Initialize\<close>, lines 62 to 94.\<close>

definition PWM_Initialize :: "bool \<Rightarrow> pwm_state \<Rightarrow> bool \<Rightarrow> u32 \<Rightarrow> XStatus \<times> pwm_state" where
  "PWM_Initialize found d EnableInterrupts clkfreq =
    (let (StatusReg, d1) = XTmrCtr_Initialize found d
     in if StatusReg \<noteq> XST_SUCCESS then (StatusReg, d1)
        else
          let ctlbits =
                (if EnableInterrupts
                 then XTC_CSR_ENABLE_PWM_MASK OR XTC_CSR_EXT_GENERATE_MASK OR
                      XTC_CSR_AUTO_RELOAD_MASK OR XTC_CSR_DOWN_COUNT_MASK OR
                      XTC_CSR_ENABLE_INT_MASK
                 else XTC_CSR_ENABLE_PWM_MASK OR XTC_CSR_EXT_GENERATE_MASK OR
                      XTC_CSR_AUTO_RELOAD_MASK OR XTC_CSR_DOWN_COUNT_MASK);
              d2 = XTmrCtr_SetControlStatusReg d1 PWM_PERIOD_TIMER ctlbits;
              d3 = XTmrCtr_SetControlStatusReg d2 PWM_DUTY_TIMER ctlbits
          in (XST_SUCCESS, d3\<lparr>clock_frequency := fl_of_u32 binary32 clkfreq\<rparr>))"

text \<open>
  \<open>PWM_Start\<close>, lines 115 to 140. As in the source, the control bits written to the duty
  timer are read from the period timer's register.
\<close>

definition PWM_Start :: "pwm_state \<Rightarrow> XStatus \<times> pwm_state" where
  "PWM_Start d =
    (if IsReady d \<noteq> XIL_COMPONENT_IS_READY then (XST_FAILURE, d)
     else
       let d1 = XTmrCtr_LoadTimerCounterReg d PWM_PERIOD_TIMER;
           (v1, d2) = XTmrCtr_GetControlStatusReg d1 PWM_PERIOD_TIMER;
           d3 = XTmrCtr_SetControlStatusReg d2 PWM_PERIOD_TIMER (v1 AND 0xFFFFFFDF);
           d4 = XTmrCtr_LoadTimerCounterReg d3 PWM_DUTY_TIMER;
           (v2, d5) = XTmrCtr_GetControlStatusReg d4 PWM_PERIOD_TIMER;
           d6 = XTmrCtr_SetControlStatusReg d5 PWM_DUTY_TIMER (v2 AND 0xFFFFFFDF);
           (v3, d7) = XTmrCtr_GetControlStatusReg d6 PWM_PERIOD_TIMER;
           d8 = XTmrCtr_SetControlStatusReg d7 PWM_PERIOD_TIMER (v3 OR XTC_CSR_ENABLE_ALL_MASK)
       in (XST_SUCCESS, d8))"

text \<open>\<open>PWM_Stop\<close>, lines 159 to 173.\<close>

definition PWM_Stop :: "pwm_state \<Rightarrow> XStatus \<times> pwm_state" where
  "PWM_Stop d =
    (if IsReady d \<noteq> XIL_COMPONENT_IS_READY then (XST_FAILURE, d)
     else
       let d1 = XTmrCtr_Disable d PWM_PERIOD_TIMER;
           d2 = XTmrCtr_Disable d1 PWM_DUTY_TIMER
       in (XST_SUCCESS, d2))"

text \<open>\<open>PWM_MAXCNT\<close> of pwm_tmrctr.h, a \<open>double\<close> constant.\<close>

definition PWM_MAXCNT :: fl where
  "PWM_MAXCNT = Fin 4294967295"

text \<open>
  The values \<open>PWM_SetParams\<close> computes in lines 216 to 225, each as the source types it:
  \<open>1.0 / clock_frequency\<close>, \<open>1.0 / freq\<close> and \<open>dutyfactor / 100.00\<close> are \<open>double\<close>
  divisions stored in a \<open>float\<close>; the other operations are \<open>float\<close> operations.
\<close>

definition timer_clock_period :: "pwm_state \<Rightarrow> fl" where
  "timer_clock_period d =
    fl_convert binary32 (fl_div binary64 (Fin 1) (clock_frequency d))"

definition SetParams_pwm_period :: "u32 \<Rightarrow> fl" where
  "SetParams_pwm_period freq =
    fl_convert binary32 (fl_div binary64 (Fin 1) (fl_of_u32 binary64 freq))"

definition SetParams_tlr0 :: "pwm_state \<Rightarrow> u32 \<Rightarrow> fl" where
  "SetParams_tlr0 d freq =
    fl_sub binary32 (fl_div binary32 (SetParams_pwm_period freq) (timer_clock_period d)) (Fin 2)"

definition SetParams_pwm_dc :: "u32 \<Rightarrow> fl" where
  "SetParams_pwm_dc dutyfactor =
    fl_convert binary32 (fl_div binary64 (fl_of_u32 binary64 dutyfactor) (Fin 100))"

text \<open>The duty count before the test \<open>tlr1 < 0\<close>, and after it.\<close>

definition SetParams_tlr1_raw :: "pwm_state \<Rightarrow> u32 \<Rightarrow> u32 \<Rightarrow> fl" where
  "SetParams_tlr1_raw d freq dutyfactor =
    fl_sub binary32
      (fl_div binary32
         (fl_mul binary32 (SetParams_pwm_period freq) (SetParams_pwm_dc dutyfactor))
         (timer_clock_period d))
      (Fin 2)"

definition SetParams_tlr1 :: "pwm_state \<Rightarrow> u32 \<Rightarrow> u32 \<Rightarrow> fl" where
  "SetParams_tlr1 d freq dutyfactor =
    (let tlr1 = SetParams_tlr1_raw d freq dutyfactor
     in if fl_less tlr1 (Fin 0) then Fin 0 else tlr1)"

text \<open>\<open>PWM_SetParams\<close>, lines 201 to 243.\<close>

definition PWM_SetParams :: "fp_target \<Rightarrow> pwm_state \<Rightarrow> u32 \<Rightarrow> u32 \<Rightarrow> XStatus \<times> pwm_state" where
  "PWM_SetParams tg d freq dutyfactor =
    (if IsReady d \<noteq> XIL_COMPONENT_IS_READY then (XST_FAILURE, d)
     else
       let tlr0 = SetParams_tlr0 d freq;
           tlr1 = SetParams_tlr1 d freq dutyfactor
       in if dutyfactor > 100 then (XST_INVALID_PARAM, d)
          else if fl_less PWM_MAXCNT tlr0 \<or> fl_less PWM_MAXCNT tlr1
          then (XST_INVALID_PARAM, d)
          else
            let d1 = snd (PWM_Stop d);
                d2 = XTmrCtr_SetLoadReg d1 PWM_PERIOD_TIMER (u32_of_fl tg tlr0);
                d3 = XTmrCtr_SetLoadReg d2 PWM_DUTY_TIMER (u32_of_fl tg tlr1)
            in (XST_SUCCESS, d3))"

text \<open>
  The values \<open>PWM_GetParams\<close> computes from the two load registers, lines 294 to 306.
  \<open>pwm_dc\<close> is the quotient of the duty register by the period register, both as read.
\<close>

definition GetParams_pwm_period :: "pwm_state \<Rightarrow> u32 \<Rightarrow> fl" where
  "GetParams_pwm_period d tlr =
    fl_mul binary32 (fl_add binary32 (fl_of_u32 binary32 tlr) (Fin 2)) (timer_clock_period d)"

definition GetParams_pwm_dc :: "u32 \<Rightarrow> u32 \<Rightarrow> fl" where
  "GetParams_pwm_dc tlr_period tlr_duty =
    fl_div binary32 (fl_of_u32 binary32 tlr_duty) (fl_of_u32 binary32 tlr_period)"

definition GetParams_freq :: "fp_target \<Rightarrow> pwm_state \<Rightarrow> u32 \<Rightarrow> u32" where
  "GetParams_freq tg d tlr =
    word_of_int
      (lroundf tg (fl_convert binary32 (fl_div binary64 (Fin 1) (GetParams_pwm_period d tlr))))"

definition GetParams_dutyfactor :: "fp_target \<Rightarrow> u32 \<Rightarrow> u32 \<Rightarrow> u32" where
  "GetParams_dutyfactor tg tlr_period tlr_duty =
    word_of_int
      (lroundf tg
         (fl_convert binary32
            (fl_mul binary64 (GetParams_pwm_dc tlr_period tlr_duty) (Fin 100))))"

text \<open>
  \<open>PWM_GetParams\<close>, lines 273 to 308. The third component holds the values stored
  through the pointers \<open>freq\<close> and \<open>dutyfactor\<close>; it is \<open>None\<close> when nothing is stored.
\<close>

definition PWM_GetParams :: "fp_target \<Rightarrow> pwm_state \<Rightarrow> XStatus \<times> pwm_state \<times> (u32 \<times> u32) option" where
  "PWM_GetParams tg d =
    (if IsReady d \<noteq> XIL_COMPONENT_IS_READY then (XST_FAILURE, d, None)
     else
       let d1 = snd (PWM_Stop d);
           (tlr_period, d2) = XTmrCtr_GetLoadReg d1 PWM_PERIOD_TIMER;
           (tlr_duty, d3) = XTmrCtr_GetLoadReg d2 PWM_DUTY_TIMER
       in (XST_SUCCESS, d3,
           Some (GetParams_freq tg d3 tlr_period, GetParams_dutyfactor tg tlr_period tlr_duty)))"

text \<open>
  The driver's stopped state: no enable bit is set in either control/status register,
  neither the timer's own enable bit, which \<open>XTmrCtr_Disable\<close> clears, nor the enable-all
  bit, which \<open>PWM_Start\<close> sets to start both timers (lines 136 to 138).
\<close>

definition Stopped :: "pwm_state \<Rightarrow> bool" where
  "Stopped d =
    (TCSR0 d AND (XTC_CSR_ENABLE_TMR_MASK OR XTC_CSR_ENABLE_ALL_MASK) = 0 \<and>
     TCSR1 d AND (XTC_CSR_ENABLE_TMR_MASK OR XTC_CSR_ENABLE_ALL_MASK) = 0)"

text \<open>
  States used in the examples: an instance before \<open>PWM_Initialize\<close> (a zero-initialised
  global), the instances after a successful \<open>PWM_Initialize\<close> with a clock of 1024 Hz, of
  100 MHz and of \<open>2 ^ 32 - 1\<close> Hz, the 1024 Hz instance after \<open>PWM_Start\<close>, and a ready
  instance on a 1024 Hz clock whose timers are enabled.
\<close>

definition pwm_reset :: pwm_state where
  "pwm_reset = \<lparr>IsReady = 0, TCSR0 = 0, TLR0 = 0, TCSR1 = 0, TLR1 = 0,
      clock_frequency = Fin 0, bus = []\<rparr>"

definition pwm_1024 :: pwm_state where
  "pwm_1024 = snd (PWM_Initialize True pwm_reset False 1024)"

definition pwm_100MHz :: pwm_state where
  "pwm_100MHz = snd (PWM_Initialize True pwm_reset False 100000000)"

definition pwm_full_range :: pwm_state where
  "pwm_full_range = snd (PWM_Initialize True pwm_reset False 4294967295)"

definition pwm_started :: pwm_state where
  "pwm_started = snd (PWM_Start pwm_1024)"

definition pwm_running :: pwm_state where
  "pwm_running = \<lparr>IsReady = XIL_COMPONENT_IS_READY, TCSR0 = 0x696, TLR0 = 14,
      TCSR1 = 0x296, TLR1 = 6, clock_frequency = Fin 1024, bus = []\<rparr>"

text \<open>A target on which the two results C leaves open are 0.\<close>

definition target_zero :: fp_target where
  "target_zero = \<lparr>u32_cast_undefined = (\<lambda>a. 0), lroundf_unspecified = (\<lambda>a. 0)\<rparr>"


section \<open>Properties of the phase estimator\<close>

lemma uint_sub_gt:
  fixes a b :: u32
  shows "b < a \<Longrightarrow> uint (a - b) = uint a - uint b"
  by (simp add: uint_sub_if' word_less_def)

lemma sint_small:
  fixes w :: u32
  assumes "w \<le> 25000"
  shows "sint w = uint w"
proof -
  from assms have "uint w \<le> 25000" by (simp add: word_le_def)
  then have "uint w < 2 ^ 31" by simp
  moreover have "- (2 ^ 31) \<le> uint w"
    by (rule order_trans [of _ 0]) simp_all
  ultimately have "signed_take_bit 31 (uint w) = uint w"
    by (rule signed_take_bit_int_eq_self [rotated])
  then show ?thesis by (simp add: sint_uint)
qed

lemma word_gt_25000:
  fixes w :: u32
  shows "(25000 < w) = (25000 < uint w)"
  by (simp add: word_less_def)

lemma FIT_Handler_phase_diff:
  "phase_diff (FIT_Handler s a b) =
    (if b < a then (if 25000 < a - b then phase_diff s else sint (a - b))
     else if a < b then (if 25000 < b - a then phase_diff s else - sint (b - a))
     else phase_diff s)"
  by (simp add: FIT_Handler_def Let_def)

text \<open>
  C1. One invocation of the handler on the readings \<open>a\<close> (channel A, \<open>time1_count\<close>) and
  \<open>b\<close> (channel B, \<open>time2_count\<close>), read as unsigned numbers: when \<open>a\<close> leads by at most
  25000 ticks the published estimate becomes \<open>a - b\<close>; when \<open>b\<close> leads by at most 25000
  it becomes \<open>- (b - a)\<close>; when the readings differ by more than 25000 or are equal the
  estimate keeps its prior value, whatever that was.
\<close>

theorem FIT_Handler_phase_estimate:
  "(uint b < uint a \<and> uint a - uint b \<le> 25000 \<longrightarrow>
      phase_diff (FIT_Handler s a b) = uint a - uint b) \<and>
   (uint a < uint b \<and> uint b - uint a \<le> 25000 \<longrightarrow>
      phase_diff (FIT_Handler s a b) = - (uint b - uint a)) \<and>
   (\<bar>uint a - uint b\<bar> > 25000 \<or> a = b \<longrightarrow>
      phase_diff (FIT_Handler s a b) = phase_diff s)"
proof (intro conjI impI)
  assume h: "uint b < uint a \<and> uint a - uint b \<le> 25000"
  then have lt: "b < a" by (simp add: word_less_def)
  with h have le: "a - b \<le> 25000" by (simp add: word_le_def uint_sub_gt)
  then have "\<not> 25000 < a - b" by simp
  with lt le show "phase_diff (FIT_Handler s a b) = uint a - uint b"
    by (simp add: FIT_Handler_phase_diff sint_small uint_sub_gt)
next
  assume h: "uint a < uint b \<and> uint b - uint a \<le> 25000"
  then have lt: "a < b" by (simp add: word_less_def)
  then have nlt: "\<not> b < a" by simp
  from h lt have le: "b - a \<le> 25000" by (simp add: word_le_def uint_sub_gt)
  then have "\<not> 25000 < b - a" by simp
  with lt nlt le show "phase_diff (FIT_Handler s a b) = - (uint b - uint a)"
    by (simp add: FIT_Handler_phase_diff sint_small uint_sub_gt)
next
  assume h: "\<bar>uint a - uint b\<bar> > 25000 \<or> a = b"
  show "phase_diff (FIT_Handler s a b) = phase_diff s"
  proof (cases "a = b")
    case True
    then show ?thesis by (simp add: FIT_Handler_phase_diff)
  next
    case False
    with h have big: "\<bar>uint a - uint b\<bar> > 25000" by simp
    show ?thesis
    proof (cases "b < a")
      case True
      with big have "25000 < a - b"
        by (simp add: word_gt_25000 uint_sub_gt) (simp add: word_less_def)
      with True show ?thesis by (simp add: FIT_Handler_phase_diff)
    next
      case nlt: False
      with False have lt: "a < b" by simp
      with big have "25000 < b - a"
        by (simp add: word_gt_25000 uint_sub_gt) (simp add: word_less_def)
      with lt nlt show ?thesis by (simp add: FIT_Handler_phase_diff)
    qed
  qed
qed

text \<open>
  The readings of the spec's examples: (10000, 9000) gives +1000, (5000, 9000) gives
  -4000, (40000, 1000) and a tie leave a prior estimate of 1000 in place.
\<close>

theorem FIT_Handler_phase_estimate_witness:
  "phase_diff (FIT_Handler FIT_init 10000 9000) = 1000 \<and>
   phase_diff (FIT_Handler FIT_init 5000 9000) = - 4000 \<and>
   phase_diff (FIT_Handler (FIT_init\<lparr>phase_diff := 1000\<rparr>) 40000 1000) = 1000 \<and>
   phase_diff (FIT_Handler (FIT_init\<lparr>phase_diff := 1000\<rparr>) 7 7) = 1000"
  using FIT_Handler_phase_estimate [of 9000 10000 FIT_init]
    FIT_Handler_phase_estimate [of 9000 5000 FIT_init]
    FIT_Handler_phase_estimate [of 1000 40000 "FIT_init\<lparr>phase_diff := 1000\<rparr>"]
    FIT_Handler_phase_estimate [of 7 7 "FIT_init\<lparr>phase_diff := 1000\<rparr>"]
  by simp

lemma FIT_Handler_phase_bound:
  "phase_diff (FIT_Handler s a b) = phase_diff s \<or> \<bar>phase_diff (FIT_Handler s a b)\<bar> \<le> 25000"
proof -
  have small: "\<And>w::u32. \<not> 25000 < w \<Longrightarrow> \<bar>sint w\<bar> \<le> 25000"
  proof -
    fix w :: u32 assume "\<not> 25000 < w"
    then have le: "w \<le> 25000" by simp
    then have "uint w \<le> 25000" by (simp add: word_le_def)
    with le show "\<bar>sint w\<bar> \<le> 25000" by (simp add: sint_small)
  qed
  show ?thesis
    by (auto simp add: FIT_Handler_phase_diff dest: small)
qed

lemma FIT_run_phase_bound:
  "\<bar>phase_diff s\<bar> \<le> 25000 \<Longrightarrow> \<bar>phase_diff (FIT_run s xs)\<bar> \<le> 25000"
proof (induction xs arbitrary: s)
  case Nil
  then show ?case by simp
next
  case (Cons x xs)
  obtain a b where x: "x = (a, b)" by (cases x)
  from FIT_Handler_phase_bound [of s a b] Cons.prems
  have "\<bar>phase_diff (FIT_Handler s a b)\<bar> \<le> 25000" by auto
  then show ?case using Cons.IH x by simp
qed

text \<open>
  C5. The published estimate starts at 0; one invocation of the handler, from any state
  and on any readings, either leaves it as it was or writes a value of magnitude at most
  25000; so after any sequence of interrupt firings from the initial state its magnitude
  is at most 25000.
\<close>

theorem phase_diff_invariant:
  "phase_diff FIT_init = 0 \<and>
   (phase_diff (FIT_Handler s a b) = phase_diff s \<or>
      \<bar>phase_diff (FIT_Handler s a b)\<bar> \<le> 25000) \<and>
   \<bar>phase_diff (FIT_run FIT_init xs)\<bar> \<le> 25000"
proof -
  have "\<bar>phase_diff FIT_init\<bar> \<le> 25000" by (simp add: FIT_init_def)
  then have "\<bar>phase_diff (FIT_run FIT_init xs)\<bar> \<le> 25000" by (rule FIT_run_phase_bound)
  then show ?thesis
    using FIT_Handler_phase_bound [of s a b] by (simp add: FIT_init_def)
qed

section \<open>The millisecond timestamp\<close>

lemma FIT_Handler_timestamp:
  "timestamp (FIT_Handler s a b) =
    (if ts_interval s + 1 > 40 then timestamp s + 1 else timestamp s)"
  by (simp add: FIT_Handler_def Let_def FIT_COUNT_1MSEC_def)

lemma FIT_Handler_ts_interval:
  "ts_interval (FIT_Handler s a b) =
    (if ts_interval s + 1 > 40 then 1 else ts_interval s + 1)"
  by (simp add: FIT_Handler_def Let_def FIT_COUNT_1MSEC_def)

text \<open>
  Once the interval counter is between 1 and 40, the timestamp advances at every firing
  that finds the counter at 40.
\<close>

lemma FIT_run_timestamp:
  "1 \<le> ts_interval s \<Longrightarrow> ts_interval s \<le> 40 \<Longrightarrow>
   timestamp (FIT_run s xs) =
     timestamp s + of_nat ((nat (ts_interval s) + length xs - 1) div 40)"
proof (induction xs arbitrary: s)
  case Nil
  then show ?case by simp
next
  case (Cons x xs)
  obtain a b where x: "x = (a, b)" by (cases x)
  let ?s = "FIT_Handler s a b"
  show ?case
  proof (cases "ts_interval s = 40")
    case True
    then have ts: "ts_interval ?s = 1" and t: "timestamp ?s = timestamp s + 1"
      by (simp_all add: FIT_Handler_ts_interval FIT_Handler_timestamp)
    from ts have "timestamp (FIT_run ?s xs) =
        timestamp ?s + of_nat ((nat 1 + length xs - 1) div 40)"
      using Cons.IH [of ?s] by simp
    moreover have "(nat (ts_interval s) + length (x # xs) - 1) div 40 = 1 + length xs div 40"
      using True by simp
    ultimately show ?thesis using x t by simp
  next
    case False
    with Cons.prems have lt: "ts_interval s < 40" by simp
    then have ts: "ts_interval ?s = ts_interval s + 1" and t: "timestamp ?s = timestamp s"
      by (simp_all add: FIT_Handler_ts_interval FIT_Handler_timestamp)
    from ts lt Cons.prems
    have "timestamp (FIT_run ?s xs) =
          timestamp ?s + of_nat ((nat (ts_interval s + 1) + length xs - 1) div 40)"
      using Cons.IH [of ?s] by simp
    moreover have "nat (ts_interval s + 1) + length xs - 1 =
        nat (ts_interval s) + length (x # xs) - 1"
      using Cons.prems by (simp add: nat_add_distrib)
    ultimately show ?thesis using x t by simp
  qed
qed

lemma FIT_run_init_timestamp:
  "timestamp (FIT_run FIT_init xs) = of_nat ((length xs - 1) div 40)"
proof (cases xs)
  case Nil
  then show ?thesis by (simp add: FIT_init_def)
next
  case (Cons x ys)
  obtain a b where x: "x = (a, b)" by (cases x)
  let ?s = "FIT_Handler FIT_init a b"
  have ts: "ts_interval ?s = 1" and t: "timestamp ?s = 0"
    by (simp_all add: FIT_Handler_ts_interval FIT_Handler_timestamp FIT_init_def)
  then have "timestamp (FIT_run ?s ys) = of_nat ((nat 1 + length ys - 1) div 40)"
    using FIT_run_timestamp [of ?s ys] by simp
  then show ?thesis using Cons x by simp
qed

text \<open>
  C9. What the handler does to the timestamp, from the initial state: after \<open>n\<close> firings
  it stands at \<open>(n - 1) div 40\<close> (0 for \<open>n = 0\<close>). The static counter starts at 0 but is
  reset to 1, so the first advance comes at firing 41 and the later ones every 40 firings
  after it: 40 firings leave the timestamp at 0, and it reaches 1 at firing 41. After
  \<open>40 * k\<close> firings it has advanced by \<open>k - 1\<close>, not by \<open>k\<close>.
\<close>

theorem FIT_timestamp_after_firings:
  "timestamp (FIT_run FIT_init xs) = of_nat ((length xs - 1) div 40) \<and>
   timestamp (FIT_run FIT_init (replicate 40 (a, b))) = 0 \<and>
   timestamp (FIT_run FIT_init (replicate 41 (a, b))) = 1"
  by (simp add: FIT_run_init_timestamp)

section \<open>Properties of the steering policy\<close>

text \<open>
  C4. The duty cycle is \<open>phase_diff * 4 / 25000 + 7\<close> with the quotient truncated towards
  zero: 2500 gives 7, 25000 gives 11, -25000 gives 3. For every estimate the handler can
  publish (magnitude at most 25000) the result lies between 3 and 11, so it is the value
  that clamping to the valid range 0..100 gives.
\<close>

theorem steering_duty_truncates:
  "steering_duty 2500 = 7 \<and> steering_duty 25000 = 11 \<and> steering_duty (- 25000) = 3 \<and>
   (\<bar>p\<bar> \<le> 25000 \<longrightarrow>
      steering_duty p = clamp_duty (p * 4 sdiv 25000 + 7) \<and>
      3 \<le> steering_duty p \<and> steering_duty p \<le> 11)"
proof -
  have ex: "steering_duty 2500 = 7 \<and> steering_duty 25000 = 11 \<and> steering_duty (- 25000) = 3"
    by (simp add: steering_duty_def SERVO_NEUTRAL_DUTY_def signed_divide_int_def)
  have rng: "3 \<le> steering_duty p \<and> steering_duty p \<le> 11" if "\<bar>p\<bar> \<le> 25000"
  proof -
    have "\<bar>p * 4\<bar> div 25000 \<le> 4" using that by simp
    moreover have "0 \<le> \<bar>p * 4\<bar> div 25000" by simp
    ultimately have "\<bar>p * 4 sdiv 25000\<bar> \<le> 4"
      by (simp add: signed_divide_int_def abs_mult abs_sgn_eq)
    then have "- 4 \<le> p * 4 sdiv 25000 \<and> p * 4 sdiv 25000 \<le> 4" by linarith
    then show ?thesis by (simp add: steering_duty_def SERVO_NEUTRAL_DUTY_def)
  qed
  show ?thesis
    using ex rng by (auto simp add: clamp_duty_def steering_duty_def SERVO_NEUTRAL_DUTY_def)
qed

text \<open>
  Truncation, not rounding down: an estimate of -6249 still gives 7, and -6250 gives 6.
\<close>

theorem steering_duty_truncates_witness:
  "steering_duty 2500 = clamp_duty (2500 * 4 sdiv 25000 + 7) \<and> steering_duty (- 6249) = 7 \<and>
   steering_duty (- 6250) = 6"
  using steering_duty_truncates [of 2500]
  by (simp add: steering_duty_def SERVO_NEUTRAL_DUTY_def signed_divide_int_def)

section \<open>Rounding: bounds and exact cases\<close>

lemma pow2_powi: "pow2 e = 2 powi e"
  by (simp add: pow2_def power_int_def inverse_eq_divide power_one_over)

lemma pow2_pos [simp]: "0 < pow2 e"
  by (simp add: pow2_powi)

lemma pow2_add: "pow2 (a + b) = pow2 a * pow2 b"
  by (simp add: pow2_powi power_int_add)

lemma pow2_diff: "pow2 (a - b) = pow2 a / pow2 b"
  by (simp add: pow2_powi power_int_diff)

lemma pow2_mono: "a \<le> b \<Longrightarrow> pow2 a \<le> pow2 b"
  by (simp add: pow2_powi power_int_increasing)

lemma pow2_strict_mono: "a < b \<Longrightarrow> pow2 a < pow2 b"
  by (simp add: pow2_powi power_int_strict_increasing)

lemma pow2_of_nat: "pow2 (int n) = 2 ^ n"
  by (simp add: pow2_powi)

lemma pow2_0 [simp]: "pow2 0 = 1"
  by (simp add: pow2_def)

lemma pow2_1 [simp]: "pow2 1 = 2"
  by (simp add: pow2_def)

lemma pow2_Suc: "pow2 (e + 1) = 2 * pow2 e"
  by (simp add: pow2_add)

lemma pow2_nonneg_exp: "0 \<le> e \<Longrightarrow> pow2 e = 2 ^ nat e"
  by (simp add: pow2_def)

lemma of_int_pow2_le: "2 ^ n \<le> (a::int) \<Longrightarrow> (2::rat) ^ n \<le> of_int a"
proof -
  assume "2 ^ n \<le> a"
  then have "(of_int (2 ^ n) :: rat) \<le> of_int a" by (simp only: of_int_le_iff)
  then show ?thesis by simp
qed

lemma of_int_less_pow2: "(a::int) < 2 ^ n \<Longrightarrow> of_int a < (2::rat) ^ n"
proof -
  assume "a < 2 ^ n"
  then have "(of_int a :: rat) < of_int (2 ^ n)" by (simp only: of_int_less_iff)
  then show ?thesis by simp
qed


lemma ilog2_bounds:
  assumes "0 < x"
  shows "pow2 (ilog2 x) \<le> x \<and> x < pow2 (ilog2 x + 1)"
proof -
  obtain a b where q: "quotient_of x = (a, b)" by (cases "quotient_of x")
  then have b: "0 < b" by (rule quotient_of_denom_pos)
  from q have x: "x = of_int a / of_int b" by (rule quotient_of_div)
  with assms b have a: "0 < a" by (simp add: zero_less_divide_iff)
  define la lb where "la = bitlen a" and "lb = bitlen b"
  have la1: "1 \<le> la" and lb1: "1 \<le> lb"
    using a b bitlen_eq_zero_iff [of a] bitlen_eq_zero_iff [of b] bitlen_nonneg [of a] bitlen_nonneg [of b]
    by (auto simp: la_def lb_def)
  have "2 ^ nat (la - 1) \<le> a" "a < 2 ^ nat la" "2 ^ nat (lb - 1) \<le> b" "b < 2 ^ nat lb"
    using bitlen_bounds [OF a] bitlen_bounds [OF b] by (simp_all add: la_def lb_def)
  then have ra: "pow2 (la - 1) \<le> of_int a" "of_int a < pow2 la"
    and rb: "pow2 (lb - 1) \<le> of_int b" "of_int b < pow2 lb"
    using la1 lb1
    by (simp_all add: pow2_nonneg_exp of_int_pow2_le of_int_less_pow2)
  have bpos: "(0::rat) < of_int b" using b by simp
  have apos: "(0::rat) < of_int a" using a by simp
  have up: "x < pow2 (la - lb + 1)"
  proof -
    have "x < pow2 la / of_int b" unfolding x using ra(2) bpos by (simp add: divide_strict_right_mono)
    also have "\<dots> \<le> pow2 la / pow2 (lb - 1)"
      by (rule divide_left_mono) (use rb(1) b in \<open>simp_all add: less_imp_le\<close>)
    also have "\<dots> = pow2 (la - lb + 1)" by (simp add: pow2_diff [symmetric] algebra_simps)
    finally show ?thesis .
  qed
  have lo: "pow2 (la - lb - 1) < x"
  proof -
    have "pow2 (la - lb - 1) = pow2 (la - 1) / pow2 lb" by (simp add: pow2_diff [symmetric] algebra_simps)
    also have "\<dots> < pow2 (la - 1) / of_int b"
      by (rule divide_strict_left_mono) (use rb(2) b in simp_all)
    also have "\<dots> \<le> x" unfolding x using ra(1) bpos by (simp add: divide_right_mono)
    finally show ?thesis .
  qed
  show ?thesis
  proof (cases "pow2 (la - lb) \<le> x")
    case True
    then have "ilog2 x = la - lb" by (simp add: ilog2_def q la_def lb_def)
    with True up show ?thesis by simp
  next
    case False
    then have "ilog2 x = la - lb - 1" by (simp add: ilog2_def q la_def lb_def)
    with False lo show ?thesis by simp
  qed
qed

lemma ilog2_unique:
  assumes "pow2 k \<le> x" "x < pow2 (k + 1)"
  shows "ilog2 x = k"
proof -
  have x: "0 < x" using assms(1) pow2_pos [of k] by linarith
  note b = ilog2_bounds [OF x]
  have "\<not> ilog2 x < k"
  proof
    assume "ilog2 x < k"
    then have "pow2 (ilog2 x + 1) \<le> pow2 k" by (simp add: pow2_mono)
    with b assms show False by linarith
  qed
  moreover have "\<not> k < ilog2 x"
  proof
    assume "k < ilog2 x"
    then have "pow2 (k + 1) \<le> pow2 (ilog2 x)" by (simp add: pow2_mono)
    with b assms show False by linarith
  qed
  ultimately show ?thesis by simp
qed

lemma round_half_even_err: "\<bar>of_int (round_half_even x) - x\<bar> \<le> 1 / 2"
proof -
  have "of_int \<lfloor>x\<rfloor> \<le> x" "x < of_int \<lfloor>x\<rfloor> + 1" by linarith+
  then show ?thesis
    by (auto simp add: round_half_even_def Let_def abs_le_iff)
qed

lemma round_half_even_of_int [simp]: "round_half_even (of_int n) = n"
  by (simp add: round_half_even_def)

lemma round_half_even_nonneg: "0 \<le> x \<Longrightarrow> 0 \<le> round_half_even x"
  by (auto simp add: round_half_even_def Let_def)

lemma ilog2_less: 
  assumes "0 < x" "x < pow2 k"
  shows "ilog2 x < k"
proof (rule ccontr)
  assume "\<not> ilog2 x < k"
  then have "pow2 k \<le> pow2 (ilog2 x)" by (simp add: pow2_mono)
  with ilog2_bounds [OF assms(1)] assms(2) show False by linarith
qed

lemma ilog2_ge:
  assumes "pow2 k \<le> x"
  shows "k \<le> ilog2 x"
proof (rule ccontr)
  assume "\<not> k \<le> ilog2 x"
  then have "pow2 (ilog2 x + 1) \<le> pow2 k" by (simp add: pow2_mono)
  moreover have "0 < x" using assms pow2_pos [of k] by linarith
  ultimately show False using ilog2_bounds [of x] assms by linarith
qed

text \<open>The shape of a rounding: the rounded magnitude is within half a quantum.\<close>

lemma fl_round_shape:
  fixes fmt :: fl_format and x :: rat
  assumes "x \<noteq> 0"
  defines "e \<equiv> max (ilog2 \<bar>x\<bar>) (emin fmt)"
  defines "q \<equiv> pow2 (e - int (precision fmt) + 1)"
  obtains y where "0 \<le> y" "\<bar>y - \<bar>x\<bar>\<bar> \<le> q / 2"
    "fl_round fmt x =
      (if pow2 (emax fmt + 1) \<le> y then (if 0 < x then PInf else NInf) else Fin (sgn x * y))"
    "y = of_int (round_half_even (\<bar>x\<bar> / q)) * q"
proof -
  define y where "y = of_int (round_half_even (\<bar>x\<bar> / q)) * q"
  have q: "0 < q" by (simp add: q_def)
  have "0 \<le> \<bar>x\<bar> / q" using q by simp
  then have "0 \<le> round_half_even (\<bar>x\<bar> / q)" by (rule round_half_even_nonneg)
  then have y0: "0 \<le> y" using q by (simp add: y_def)
  have "\<bar>of_int (round_half_even (\<bar>x\<bar> / q)) - \<bar>x\<bar> / q\<bar> \<le> 1 / 2"
    by (rule round_half_even_err)
  then have "\<bar>of_int (round_half_even (\<bar>x\<bar> / q)) - \<bar>x\<bar> / q\<bar> * q \<le> 1 / 2 * q"
    using q by (simp add: mult_right_mono)
  moreover have "\<bar>of_int (round_half_even (\<bar>x\<bar> / q)) - \<bar>x\<bar> / q\<bar> * q = \<bar>y - \<bar>x\<bar>\<bar>"
  proof -
    have "\<bar>of_int (round_half_even (\<bar>x\<bar> / q)) - \<bar>x\<bar> / q\<bar> * q
        = \<bar>(of_int (round_half_even (\<bar>x\<bar> / q)) - \<bar>x\<bar> / q) * q\<bar>"
      using q by (simp add: abs_mult)
    also have "(of_int (round_half_even (\<bar>x\<bar> / q)) - \<bar>x\<bar> / q) * q = y - \<bar>x\<bar>"
      using q by (simp add: y_def algebra_simps)
    finally show ?thesis .
  qed
  ultimately have err: "\<bar>y - \<bar>x\<bar>\<bar> \<le> q / 2" by simp
  have "fl_round fmt x =
      (if pow2 (emax fmt + 1) \<le> y then (if 0 < x then PInf else NInf) else Fin (sgn x * y))"
    using assms(1) by (simp add: fl_round_def Let_def y_def q_def e_def)
  with y0 err show ?thesis using that y_def by blast
qed

lemma sgn_mult_abs_diff:
  fixes x y :: rat
  assumes "x \<noteq> 0"
  shows "\<bar>sgn x * y - x\<bar> = \<bar>y - \<bar>x\<bar>\<bar>"
proof (cases "0 < x")
  case True
  then show ?thesis by simp
next
  case False
  with assms have "x < 0" by simp
  then show ?thesis by (simp add: abs_minus_commute)
qed

lemma fl_round_general:
  assumes fmt: "1 \<le> precision fmt" "emin fmt \<le> emax fmt"
    and x: "\<bar>x\<bar> \<le> pow2 (emax fmt)"
  shows "\<exists>y. fl_round fmt x = Fin y \<and>
           \<bar>y - x\<bar> \<le> \<bar>x\<bar> * pow2 (- int (precision fmt)) + pow2 (emin fmt - int (precision fmt)) \<and>
           (0 \<le> x \<longrightarrow> 0 \<le> y) \<and> (x \<le> 0 \<longrightarrow> y \<le> 0)"
proof (cases "x = 0")
  case True
  then show ?thesis by (simp add: fl_round_def less_imp_le)
next
  case False
  define p where "p = int (precision fmt)"
  define e where "e = max (ilog2 \<bar>x\<bar>) (emin fmt)"
  define q where "q = pow2 (e - p + 1)"
  from False have a: "0 < \<bar>x\<bar>" by simp
  obtain y where y: "0 \<le> y" "\<bar>y - \<bar>x\<bar>\<bar> \<le> q / 2"
    "fl_round fmt x =
      (if pow2 (emax fmt + 1) \<le> y then (if 0 < x then PInf else NInf) else Fin (sgn x * y))"
    using fl_round_shape [OF False, of fmt] unfolding q_def e_def p_def by blast
  have p1: "1 \<le> p" using fmt by (simp add: p_def)
  have q2: "q / 2 = pow2 (e - p)"
    using pow2_Suc [of "e - p"] by (simp add: q_def algebra_simps)
  have il: "ilog2 \<bar>x\<bar> \<le> emax fmt"
  proof -
    have "\<bar>x\<bar> < pow2 (emax fmt + 1)"
      using x pow2_strict_mono [of "emax fmt" "emax fmt + 1"] by simp
    from ilog2_less [OF a this] show ?thesis by simp
  qed
  then have e_le: "e \<le> emax fmt" using fmt by (simp add: e_def)
  have qe: "pow2 (e - p) \<le> \<bar>x\<bar> * pow2 (- p) + pow2 (emin fmt - p)"
  proof (cases "emin fmt \<le> ilog2 \<bar>x\<bar>")
    case True
    then have "e = ilog2 \<bar>x\<bar>" by (simp add: e_def)
    then have "pow2 (e - p) = pow2 (ilog2 \<bar>x\<bar>) * pow2 (- p)"
      using pow2_add [of "ilog2 \<bar>x\<bar>" "- p"] by simp
    also have "\<dots> \<le> \<bar>x\<bar> * pow2 (- p)"
      using ilog2_bounds [OF a] by (simp add: mult_right_mono less_imp_le)
    finally show ?thesis using pow2_pos [of "emin fmt - p"] by linarith
  next
    case False
    then have "e = emin fmt" by (simp add: e_def)
    moreover have "0 \<le> \<bar>x\<bar> * pow2 (- p)" by (simp add: less_imp_le)
    ultimately show ?thesis by simp
  qed
  have "y \<le> \<bar>x\<bar> + q / 2" using y(2) by linarith
  also have "q / 2 \<le> pow2 (emax fmt - 1)"
    unfolding q2 using e_le p1 by (intro pow2_mono) simp
  also have "\<bar>x\<bar> + pow2 (emax fmt - 1) < pow2 (emax fmt + 1)"
  proof -
    have "pow2 (emax fmt + 1) = 2 * pow2 (emax fmt)" by (rule pow2_Suc)
    moreover have "pow2 (emax fmt - 1) < pow2 (emax fmt)" by (simp add: pow2_strict_mono)
    ultimately show ?thesis using x by linarith
  qed
  finally have "y < pow2 (emax fmt + 1)" by simp
  with y(3) have r: "fl_round fmt x = Fin (sgn x * y)" by simp
  have "\<bar>sgn x * y - x\<bar> = \<bar>y - \<bar>x\<bar>\<bar>" using False by (rule sgn_mult_abs_diff)
  also have "\<dots> \<le> pow2 (e - p)" using y(2) q2 by simp
  also note qe
  finally have err: "\<bar>sgn x * y - x\<bar> \<le> \<bar>x\<bar> * pow2 (- p) + pow2 (emin fmt - p)" .
  have sg: "(0 \<le> x \<longrightarrow> 0 \<le> sgn x * y) \<and> (x \<le> 0 \<longrightarrow> sgn x * y \<le> 0)"
    using y(1) False by (auto simp add: sgn_if mult_le_0_iff)
  show ?thesis using r err sg unfolding p_def by blast
qed

lemma fl_round_normal:
  assumes fmt: "1 \<le> precision fmt" "emin fmt \<le> emax fmt"
    and lo: "pow2 (emin fmt) \<le> \<bar>x\<bar>" and hi: "\<bar>x\<bar> \<le> pow2 (emax fmt)"
  shows "\<exists>y. fl_round fmt x = Fin y \<and> \<bar>y - x\<bar> \<le> \<bar>x\<bar> * pow2 (- int (precision fmt)) \<and>
           (0 < x \<longrightarrow> 0 < y) \<and> (x < 0 \<longrightarrow> y < 0)"
proof -
  define p where "p = int (precision fmt)"
  have a: "0 < \<bar>x\<bar>" using lo pow2_pos [of "emin fmt"] by linarith
  then have x0: "x \<noteq> 0" by simp
  define e where "e = max (ilog2 \<bar>x\<bar>) (emin fmt)"
  define q where "q = pow2 (e - p + 1)"
  obtain y where y: "0 \<le> y" "\<bar>y - \<bar>x\<bar>\<bar> \<le> q / 2"
    "fl_round fmt x =
      (if pow2 (emax fmt + 1) \<le> y then (if 0 < x then PInf else NInf) else Fin (sgn x * y))"
    using fl_round_shape [OF x0, of fmt] unfolding q_def e_def p_def by blast
  have p1: "1 \<le> p" using fmt by (simp add: p_def)
  have q2: "q / 2 = pow2 (e - p)"
    using pow2_Suc [of "e - p"] by (simp add: q_def algebra_simps)
  have "emin fmt \<le> ilog2 \<bar>x\<bar>" using lo by (rule ilog2_ge)
  then have e: "e = ilog2 \<bar>x\<bar>" by (simp add: e_def)
  have il: "ilog2 \<bar>x\<bar> \<le> emax fmt"
  proof -
    have "\<bar>x\<bar> < pow2 (emax fmt + 1)"
      using hi pow2_strict_mono [of "emax fmt" "emax fmt + 1"] by simp
    from ilog2_less [OF a this] show ?thesis by simp
  qed
  have qe: "pow2 (e - p) \<le> \<bar>x\<bar> * pow2 (- p)"
  proof -
    have "pow2 (e - p) = pow2 (ilog2 \<bar>x\<bar>) * pow2 (- p)"
      using pow2_add [of "ilog2 \<bar>x\<bar>" "- p"] e by simp
    also have "\<dots> \<le> \<bar>x\<bar> * pow2 (- p)"
      using ilog2_bounds [OF a] by (simp add: mult_right_mono less_imp_le)
    finally show ?thesis .
  qed
  have half: "pow2 (- p) \<le> 1 / 2"
  proof -
    have "pow2 (- p) \<le> pow2 (- 1)" using p1 by (intro pow2_mono) simp
    then show ?thesis by (simp add: pow2_def)
  qed
  have "y \<le> \<bar>x\<bar> + q / 2" using y(2) by linarith
  also have "q / 2 \<le> pow2 (emax fmt - 1)"
    unfolding q2 using il e p1 by (intro pow2_mono) simp
  also have "\<bar>x\<bar> + pow2 (emax fmt - 1) < pow2 (emax fmt + 1)"
  proof -
    have "pow2 (emax fmt + 1) = 2 * pow2 (emax fmt)" by (rule pow2_Suc)
    moreover have "pow2 (emax fmt - 1) < pow2 (emax fmt)" by (simp add: pow2_strict_mono)
    ultimately show ?thesis using hi by linarith
  qed
  finally have "y < pow2 (emax fmt + 1)" by simp
  with y(3) have r: "fl_round fmt x = Fin (sgn x * y)" by simp
  have "\<bar>sgn x * y - x\<bar> = \<bar>y - \<bar>x\<bar>\<bar>" using x0 by (rule sgn_mult_abs_diff)
  also have "\<dots> \<le> pow2 (e - p)" using y(2) q2 by simp
  also note qe
  finally have err: "\<bar>sgn x * y - x\<bar> \<le> \<bar>x\<bar> * pow2 (- p)" .
  have "\<bar>x\<bar> * pow2 (- p) \<le> \<bar>x\<bar> * (1 / 2)"
    using half by (intro mult_left_mono) simp_all
  with y(2) q2 qe have "\<bar>y - \<bar>x\<bar>\<bar> \<le> \<bar>x\<bar> / 2" by simp
  with a have ypos: "0 < y" by linarith
  have sg: "(0 < x \<longrightarrow> 0 < sgn x * y) \<and> (x < 0 \<longrightarrow> sgn x * y < 0)"
    using ypos by (auto simp add: sgn_if)
  show ?thesis using r err sg unfolding p_def by blast
qed

lemma fl_round_exact:
  assumes fmt: "1 \<le> precision fmt"
    and x: "x = of_int m * pow2 k" and m: "\<bar>m\<bar> < 2 ^ precision fmt"
    and lo: "emin fmt - int (precision fmt) + 1 \<le> k"
    and hi: "k + int (precision fmt) \<le> emax fmt + 1"
  shows "fl_round fmt x = Fin x"
proof (cases "x = 0")
  case True
  then show ?thesis by (simp add: fl_round_def)
next
  case False
  define p where "p = int (precision fmt)"
  define e where "e = max (ilog2 \<bar>x\<bar>) (emin fmt)"
  define q where "q = pow2 (e - p + 1)"
  from False x have m0: "m \<noteq> 0" by auto
  have a: "\<bar>x\<bar> = of_int \<bar>m\<bar> * pow2 k"
    using pow2_pos [of k] by (simp add: x abs_mult less_imp_le)
  have apos: "0 < \<bar>x\<bar>" using False by simp
  have "of_int \<bar>m\<bar> < (2::rat) ^ precision fmt" using m by (rule of_int_less_pow2)
  then have "\<bar>x\<bar> < 2 ^ precision fmt * pow2 k"
    unfolding a by (intro mult_strict_right_mono) simp_all
  also have "\<dots> = pow2 (p + k)" by (simp add: pow2_add pow2_of_nat p_def)
  finally have ub: "\<bar>x\<bar> < pow2 (p + k)" .
  from ilog2_less [OF apos ub] have "ilog2 \<bar>x\<bar> \<le> k + p - 1" by simp
  with lo have ek: "e - p + 1 \<le> k" by (simp add: e_def p_def)
  define j where "j = nat (k - (e - p + 1))"
  have kq: "pow2 k = 2 ^ j * q"
  proof -
    have "pow2 k = pow2 (int j + (e - p + 1))" using ek by (simp add: j_def)
    also have "\<dots> = 2 ^ j * q" by (simp only: pow2_add pow2_of_nat q_def)
    finally show ?thesis .
  qed
  have qpos: "0 < q" by (simp add: q_def)
  have xq: "\<bar>x\<bar> = of_int (\<bar>m\<bar> * 2 ^ j) * q" by (simp add: a kq)
  then have "\<bar>x\<bar> / q = of_int (\<bar>m\<bar> * 2 ^ j)" using qpos by simp
  then have "round_half_even (\<bar>x\<bar> / q) = \<bar>m\<bar> * 2 ^ j"
    by (simp only: round_half_even_of_int)
  then have "of_int (round_half_even (\<bar>x\<bar> / q)) * q = \<bar>x\<bar>"
    using xq by simp
  moreover have "\<not> pow2 (emax fmt + 1) \<le> \<bar>x\<bar>"
  proof -
    have "pow2 (p + k) \<le> pow2 (emax fmt + 1)" using hi by (intro pow2_mono) (simp add: p_def)
    with ub show ?thesis by simp
  qed
  ultimately have "fl_round fmt x = Fin (sgn x * \<bar>x\<bar>)"
    using False by (simp add: fl_round_def Let_def q_def e_def p_def)
  then show ?thesis by (simp add: sgn_mult_abs)
qed

section \<open>Evaluation at sample values\<close>

lemma fl_round_binary32_exact:
  "x = of_int m * pow2 k \<Longrightarrow> \<bar>m\<bar> < 2 ^ 24 \<Longrightarrow> - 149 \<le> k \<Longrightarrow> k \<le> 104 \<Longrightarrow>
   fl_round binary32 x = Fin x"
  by (rule fl_round_exact [of binary32 x m k]) (simp_all add: binary32_def)

lemma fl_round_binary64_exact:
  "x = of_int m * pow2 k \<Longrightarrow> \<bar>m\<bar> < 2 ^ 53 \<Longrightarrow> - 1074 \<le> k \<Longrightarrow> k \<le> 971 \<Longrightarrow>
   fl_round binary64 x = Fin x"
  by (rule fl_round_exact [of binary64 x m k]) (simp_all add: binary64_def)

lemma fl_round_zero [simp]: "fl_round fmt 0 = Fin 0"
  by (simp add: fl_round_def)

lemma fl_round_binary32_values:
  "fl_round binary32 1024 = Fin 1024"
  "fl_round binary32 (1 / 1024) = Fin (1 / 1024)"
  "fl_round binary32 (1 / 256) = Fin (1 / 256)"
  "fl_round binary32 (1 / 512) = Fin (1 / 512)"
  "fl_round binary32 (1 / 2) = Fin (1 / 2)"
  "fl_round binary32 1 = Fin 1"
  "fl_round binary32 2 = Fin 2"
  "fl_round binary32 4 = Fin 4"
  "fl_round binary32 256 = Fin 256"
  "fl_round binary32 512 = Fin 512"
  "fl_round binary32 (- 1) = Fin (- 1)"
  using fl_round_binary32_exact [of 1024 1024 0] fl_round_binary32_exact [of "1 / 1024" 1 "- 10"]
    fl_round_binary32_exact [of "1 / 256" 1 "- 8"] fl_round_binary32_exact [of "1 / 512" 1 "- 9"]
    fl_round_binary32_exact [of "1 / 2" 1 "- 1"] fl_round_binary32_exact [of 1 1 0]
    fl_round_binary32_exact [of 2 2 0] fl_round_binary32_exact [of 4 4 0]
    fl_round_binary32_exact [of 256 256 0] fl_round_binary32_exact [of 512 512 0]
    fl_round_binary32_exact [of "- 1" "- 1" 0]
  by (simp_all add: pow2_def)

lemma fl_round_binary64_values:
  "fl_round binary64 (1 / 1024) = Fin (1 / 1024)"
  "fl_round binary64 (1 / 256) = Fin (1 / 256)"
  "fl_round binary64 (1 / 512) = Fin (1 / 512)"
  "fl_round binary64 (1 / 2) = Fin (1 / 2)"
  "fl_round binary64 50 = Fin 50"
  "fl_round binary64 256 = Fin 256"
  "fl_round binary64 512 = Fin 512"
  using fl_round_binary64_exact [of "1 / 1024" 1 "- 10"]
    fl_round_binary64_exact [of "1 / 256" 1 "- 8"] fl_round_binary64_exact [of "1 / 512" 1 "- 9"]
    fl_round_binary64_exact [of "1 / 2" 1 "- 1"] fl_round_binary64_exact [of 50 50 0]
    fl_round_binary64_exact [of 256 256 0] fl_round_binary64_exact [of 512 512 0]
  by (simp_all add: pow2_def)

lemmas fl_eval = fl_round_binary32_values fl_round_binary64_values fl_convert_def fl_of_u32_def
  fl_sub_def fl_neg_def fl_inf_def

lemma timer_clock_period_1024:
  "clock_frequency d = Fin 1024 \<Longrightarrow> timer_clock_period d = Fin (1 / 1024)"
  by (simp add: timer_clock_period_def fl_eval)

lemma SetParams_1024_256_50:
  assumes "clock_frequency d = Fin 1024"
  shows "SetParams_tlr0 d 256 = Fin 2" "SetParams_tlr1_raw d 256 50 = Fin 0"
    "SetParams_tlr1 d 256 50 = Fin 0"
  using assms
  by (simp_all add: SetParams_tlr0_def SetParams_tlr1_def SetParams_tlr1_raw_def
      SetParams_pwm_period_def SetParams_pwm_dc_def timer_clock_period_1024 fl_eval)

lemma SetParams_1024_512_50:
  assumes "clock_frequency d = Fin 1024"
  shows "SetParams_tlr0 d 512 = Fin 0" "SetParams_tlr1_raw d 512 50 = Fin (- 1)"
    "SetParams_tlr1 d 512 50 = Fin 0"
  using assms
  by (simp_all add: SetParams_tlr0_def SetParams_tlr1_def SetParams_tlr1_raw_def
      SetParams_pwm_period_def SetParams_pwm_dc_def timer_clock_period_1024 fl_eval)

lemma floor_rat_divide_numeral:
  "\<lfloor>(numeral a :: rat) / numeral b\<rfloor> = numeral a div numeral b"
  by (metis floor_divide_of_int_eq of_int_numeral)

lemma floor_rat_one_divide_numeral: "\<lfloor>(1 :: rat) / numeral b\<rfloor> = 1 div numeral b"
  by (metis floor_divide_of_int_eq of_int_numeral of_int_1)

lemma u32_of_fl_values: "u32_of_fl tg (Fin 2) = 2" "u32_of_fl tg (Fin 0) = 0"
  by (simp_all add: u32_of_fl_def)

lemma GetParams_1024_2_0:
  assumes "clock_frequency d = Fin 1024"
  shows "GetParams_freq tg d 2 = 256" "GetParams_dutyfactor tg 2 0 = 0"
  using assms
  by (simp_all add: GetParams_freq_def GetParams_dutyfactor_def GetParams_pwm_period_def
      GetParams_pwm_dc_def timer_clock_period_1024 fl_eval lroundf_def round_half_away_def
      floor_rat_divide_numeral floor_rat_one_divide_numeral)

section \<open>Properties of the PWM driver\<close>

text \<open>
  C8. On an instance that is not ready (\<open>IsReady\<close> differs from
  \<open>XIL_COMPONENT_IS_READY\<close>, as before \<open>PWM_Initialize\<close>), \<open>PWM_Start\<close>, \<open>PWM_Stop\<close>,
  \<open>PWM_SetParams\<close> and \<open>PWM_GetParams\<close> all return \<open>XST_FAILURE\<close>, the driver's
  not-initialized status, and leave the whole state as it was: no register is read or
  written (the access log is unchanged) and nothing is stored through the pointers.
\<close>

theorem not_initialized_fails:
  "IsReady d \<noteq> XIL_COMPONENT_IS_READY \<Longrightarrow>
     PWM_Start d = (XST_FAILURE, d) \<and> PWM_Stop d = (XST_FAILURE, d) \<and>
     PWM_SetParams tg d freq dutyfactor = (XST_FAILURE, d) \<and>
     PWM_GetParams tg d = (XST_FAILURE, d, None)"
  by (simp add: PWM_Start_def PWM_Stop_def PWM_SetParams_def PWM_GetParams_def)

theorem not_initialized_fails_witness:
  "\<forall>tg. PWM_Start pwm_reset = (XST_FAILURE, pwm_reset) \<and>
   PWM_Stop pwm_reset = (XST_FAILURE, pwm_reset) \<and>
   PWM_SetParams tg pwm_reset 50 7 = (XST_FAILURE, pwm_reset) \<and>
   PWM_GetParams tg pwm_reset = (XST_FAILURE, pwm_reset, None) \<and>
   bus (snd (PWM_Start pwm_reset)) = []"
  (is "\<forall>tg. ?P tg")
proof
  fix tg
  show "?P tg"
    using not_initialized_fails [of pwm_reset tg 50 7]
    by (simp add: pwm_reset_def XIL_COMPONENT_IS_READY_def)
qed

text \<open>
  C6. Whenever \<open>PWM_SetParams\<close> does not return \<open>XST_SUCCESS\<close> the state is unchanged:
  the timers are not stopped, no load register is written, and no register is accessed.
  On a ready instance a duty factor above 100 and a load count above \<open>PWM_MAXCNT\<close> are
  both reported as \<open>XST_INVALID_PARAM\<close>, before any effect.
\<close>

theorem SetParams_failure_atomic:
  "(fst (PWM_SetParams tg d freq dutyfactor) \<noteq> XST_SUCCESS \<longrightarrow>
      snd (PWM_SetParams tg d freq dutyfactor) = d) \<and>
   (IsReady d = XIL_COMPONENT_IS_READY \<and>
    (100 < dutyfactor \<or> fl_less PWM_MAXCNT (SetParams_tlr0 d freq) \<or>
     fl_less PWM_MAXCNT (SetParams_tlr1 d freq dutyfactor)) \<longrightarrow>
      PWM_SetParams tg d freq dutyfactor = (XST_INVALID_PARAM, d))"
  by (simp add: PWM_SetParams_def Let_def)

theorem SetParams_failure_atomic_witness:
  "\<forall>tg. PWM_SetParams tg pwm_running 50 101 = (XST_INVALID_PARAM, pwm_running) \<and>
   \<not> Stopped pwm_running \<and> TLR0 pwm_running = 14"
  (is "\<forall>tg. ?P tg")
proof
  fix tg
  show "?P tg"
    using SetParams_failure_atomic [of tg pwm_running 50 101]
    by (simp add: pwm_running_def Stopped_def XTC_CSR_ENABLE_TMR_MASK_def
        XTC_CSR_ENABLE_ALL_MASK_def)
qed

lemma Disable_regs:
  "TCSR0 (XTmrCtr_Disable d PWM_PERIOD_TIMER) = TCSR0 d AND NOT XTC_CSR_ENABLE_TMR_MASK"
  "TCSR1 (XTmrCtr_Disable d PWM_PERIOD_TIMER) = TCSR1 d"
  "TCSR0 (XTmrCtr_Disable d PWM_DUTY_TIMER) = TCSR0 d"
  "TCSR1 (XTmrCtr_Disable d PWM_DUTY_TIMER) = TCSR1 d AND NOT XTC_CSR_ENABLE_TMR_MASK"
  "TLR0 (XTmrCtr_Disable d t) = TLR0 d" "TLR1 (XTmrCtr_Disable d t) = TLR1 d"
  "IsReady (XTmrCtr_Disable d t) = IsReady d"
  "clock_frequency (XTmrCtr_Disable d t) = clock_frequency d"
  by (cases t; simp add: XTmrCtr_Disable_def XTmrCtr_ReadReg_def XTmrCtr_WriteReg_def)+

lemma SetLoadReg_regs:
  "TLR0 (XTmrCtr_SetLoadReg d PWM_PERIOD_TIMER v) = v"
  "TLR1 (XTmrCtr_SetLoadReg d PWM_PERIOD_TIMER v) = TLR1 d"
  "TLR0 (XTmrCtr_SetLoadReg d PWM_DUTY_TIMER v) = TLR0 d"
  "TLR1 (XTmrCtr_SetLoadReg d PWM_DUTY_TIMER v) = v"
  "TCSR0 (XTmrCtr_SetLoadReg d t v) = TCSR0 d" "TCSR1 (XTmrCtr_SetLoadReg d t v) = TCSR1 d"
  "IsReady (XTmrCtr_SetLoadReg d t v) = IsReady d"
  "clock_frequency (XTmrCtr_SetLoadReg d t v) = clock_frequency d"
  by (cases t; simp add: XTmrCtr_SetLoadReg_def XTmrCtr_WriteReg_def)+

lemma PWM_Stop_regs:
  assumes "IsReady d = XIL_COMPONENT_IS_READY"
  shows "fst (PWM_Stop d) = XST_SUCCESS"
    "TCSR0 (snd (PWM_Stop d)) = TCSR0 d AND NOT XTC_CSR_ENABLE_TMR_MASK"
    "TCSR1 (snd (PWM_Stop d)) = TCSR1 d AND NOT XTC_CSR_ENABLE_TMR_MASK"
    "TLR0 (snd (PWM_Stop d)) = TLR0 d" "TLR1 (snd (PWM_Stop d)) = TLR1 d"
    "IsReady (snd (PWM_Stop d)) = IsReady d"
    "clock_frequency (snd (PWM_Stop d)) = clock_frequency d"
  using assms by (simp_all add: PWM_Stop_def Let_def Disable_regs)

lemma SetParams_tlr_clock:
  "clock_frequency d' = clock_frequency d \<Longrightarrow> SetParams_tlr0 d' freq = SetParams_tlr0 d freq"
  "clock_frequency d' = clock_frequency d \<Longrightarrow>
     SetParams_tlr1 d' freq dutyfactor = SetParams_tlr1 d freq dutyfactor"
  by (simp_all add: SetParams_tlr0_def SetParams_tlr1_def SetParams_tlr1_raw_def
      timer_clock_period_def)

lemma PWM_SetParams_success:
  assumes "IsReady d = XIL_COMPONENT_IS_READY"
    and "fst (PWM_SetParams tg d freq dutyfactor) = XST_SUCCESS"
  shows "TLR0 (snd (PWM_SetParams tg d freq dutyfactor)) = u32_of_fl tg (SetParams_tlr0 d freq)"
    "TLR1 (snd (PWM_SetParams tg d freq dutyfactor)) =
       u32_of_fl tg (SetParams_tlr1 d freq dutyfactor)"
    "TCSR0 (snd (PWM_SetParams tg d freq dutyfactor)) = TCSR0 d AND NOT XTC_CSR_ENABLE_TMR_MASK"
    "TCSR1 (snd (PWM_SetParams tg d freq dutyfactor)) = TCSR1 d AND NOT XTC_CSR_ENABLE_TMR_MASK"
    "IsReady (snd (PWM_SetParams tg d freq dutyfactor)) = IsReady d"
    "clock_frequency (snd (PWM_SetParams tg d freq dutyfactor)) = clock_frequency d"
    "\<not> 100 < dutyfactor" "\<not> fl_less PWM_MAXCNT (SetParams_tlr0 d freq)"
    "\<not> fl_less PWM_MAXCNT (SetParams_tlr1 d freq dutyfactor)"
  using assms
  by (simp_all add: PWM_SetParams_def Let_def SetLoadReg_regs PWM_Stop_regs split: if_splits)

lemma PWM_SetParams_status:
  assumes "IsReady d = XIL_COMPONENT_IS_READY"
  shows "fst (PWM_SetParams tg d freq dutyfactor) =
    (if 100 < dutyfactor then XST_INVALID_PARAM
     else if fl_less PWM_MAXCNT (SetParams_tlr0 d freq) \<or>
             fl_less PWM_MAXCNT (SetParams_tlr1 d freq dutyfactor) then XST_INVALID_PARAM
     else XST_SUCCESS)"
  using assms by (simp add: PWM_SetParams_def Let_def)

lemma and_not_mask_idem:
  fixes x m :: u32
  shows "(x AND NOT m) AND NOT m = x AND NOT m" "(x AND NOT m) AND m = 0"
  by (simp_all add: bit_eq_iff bit_and_iff bit_not_iff) 

lemma fl_of_u32_zero [simp]: "fl_of_u32 fmt 0 = Fin 0"
  by (simp add: fl_of_u32_def)

lemma uint_u32_bounds:
  fixes w :: u32
  shows "0 \<le> (of_int (uint w) :: rat)" "(of_int (uint w) :: rat) < 2 ^ 32"
proof -
  have "0 \<le> uint w" by simp
  then show "0 \<le> (of_int (uint w) :: rat)" by (simp only: of_int_0_le_iff)
  have "uint w < 2 ^ 32" using uint_lt2p [of w] by simp
  then show "(of_int (uint w) :: rat) < 2 ^ 32" by (rule of_int_less_pow2)
qed

lemma fl_of_u32_binary32_pos:
  fixes w :: u32
  assumes "w \<noteq> 0"
  shows "\<exists>y. fl_of_u32 binary32 w = Fin y \<and> 0 < y"
proof -
  define x :: rat where "x = of_int (uint w)"
  have "uint w \<noteq> 0" using assms by (simp add: uint_0_iff)
  then have "1 \<le> uint w" using uint_ge_0 [of w] by linarith
  then have x1: "1 \<le> x" unfolding x_def by (simp add: of_int_le_iff [symmetric, where 'a = rat] del: of_int_le_iff)
  have x2: "x < 2 ^ 32" unfolding x_def by (rule uint_u32_bounds)
  have lo: "pow2 (emin binary32) \<le> \<bar>x\<bar>"
  proof -
    have "pow2 (- 126) \<le> pow2 0" by (intro pow2_mono) simp
    with x1 show ?thesis by (simp add: binary32_def)
  qed
  have hi: "\<bar>x\<bar> \<le> pow2 (emax binary32)"
  proof -
    have "pow2 32 \<le> pow2 127" by (intro pow2_mono) simp
    moreover have "pow2 32 = 2 ^ 32" by (simp add: pow2_def)
    ultimately show ?thesis using x1 x2 by (simp add: binary32_def)
  qed
  from fl_round_normal [of binary32 x, OF _ _ lo hi] x1
  show ?thesis by (auto simp add: fl_of_u32_def x_def binary32_def)
qed

lemma GetParams_pwm_dc_zero_period:
  "GetParams_pwm_dc 0 t = (if t = 0 then NaN else PInf)"
proof (cases "t = 0")
  case True
  then show ?thesis by (simp add: GetParams_pwm_dc_def)
next
  case False
  then obtain y where "fl_of_u32 binary32 t = Fin y" "0 < y"
    using fl_of_u32_binary32_pos by blast
  with False show ?thesis by (simp add: GetParams_pwm_dc_def fl_inf_def)
qed

lemma GetParams_dutyfactor_zero_period:
  "GetParams_dutyfactor tg 0 t =
     word_of_int (lroundf_unspecified tg (if t = 0 then NaN else PInf))"
  by (simp add: GetParams_dutyfactor_def GetParams_pwm_dc_zero_period fl_convert_def lroundf_def
      fl_inf_def)

lemma GetLoadReg_regs:
  "fst (XTmrCtr_GetLoadReg d PWM_PERIOD_TIMER) = TLR0 d"
  "fst (XTmrCtr_GetLoadReg d PWM_DUTY_TIMER) = TLR1 d"
  "TLR0 (snd (XTmrCtr_GetLoadReg d t)) = TLR0 d" "TLR1 (snd (XTmrCtr_GetLoadReg d t)) = TLR1 d"
  "clock_frequency (snd (XTmrCtr_GetLoadReg d t)) = clock_frequency d"
  by (simp_all add: XTmrCtr_GetLoadReg_def XTmrCtr_ReadReg_def)

lemma GetParams_freq_clock:
  "clock_frequency d' = clock_frequency d \<Longrightarrow> GetParams_freq tg d' t = GetParams_freq tg d t"
  by (simp add: GetParams_freq_def GetParams_pwm_period_def timer_clock_period_def)

lemma PWM_GetParams_ready:
  assumes "IsReady d = XIL_COMPONENT_IS_READY"
  shows "fst (PWM_GetParams tg d) = XST_SUCCESS"
    "snd (snd (PWM_GetParams tg d)) =
       Some (GetParams_freq tg d (TLR0 d), GetParams_dutyfactor tg (TLR0 d) (TLR1 d))"
proof -
  define d1 where "d1 = snd (PWM_Stop d)"
  define d2 where "d2 = snd (XTmrCtr_GetLoadReg d1 PWM_PERIOD_TIMER)"
  define d3 where "d3 = snd (XTmrCtr_GetLoadReg d2 PWM_DUTY_TIMER)"
  have r: "PWM_GetParams tg d = (XST_SUCCESS, d3,
      Some (GetParams_freq tg d3 (TLR0 d1), GetParams_dutyfactor tg (TLR0 d1) (TLR1 d2)))"
    using assms
    by (simp add: PWM_GetParams_def Let_def split_beta d1_def d2_def d3_def GetLoadReg_regs)
  have "clock_frequency d3 = clock_frequency d"
    using assms by (simp add: d3_def d2_def d1_def GetLoadReg_regs PWM_Stop_regs)
  then have f: "GetParams_freq tg d3 (TLR0 d1) = GetParams_freq tg d (TLR0 d1)"
    by (rule GetParams_freq_clock)
  have t: "TLR0 d1 = TLR0 d" "TLR1 d2 = TLR1 d"
    using assms by (simp_all add: d2_def d1_def GetLoadReg_regs PWM_Stop_regs)
  show "fst (PWM_GetParams tg d) = XST_SUCCESS" using r by simp
  show "snd (snd (PWM_GetParams tg d)) =
       Some (GetParams_freq tg d (TLR0 d), GetParams_dutyfactor tg (TLR0 d) (TLR1 d))"
    using r f t by simp
qed

lemma WriteReg_regs:
  "IsReady (XTmrCtr_WriteReg d t r v) = IsReady d"
  "clock_frequency (XTmrCtr_WriteReg d t r v) = clock_frequency d"
  "r = TCSR \<Longrightarrow> TLR0 (XTmrCtr_WriteReg d t r v) = TLR0 d"
  "r = TCSR \<Longrightarrow> TLR1 (XTmrCtr_WriteReg d t r v) = TLR1 d"
  by (cases t; cases r; simp add: XTmrCtr_WriteReg_def)+

lemma PWM_Initialize_success:
  assumes "fst (PWM_Initialize found d en clkfreq) = XST_SUCCESS"
  shows "IsReady (snd (PWM_Initialize found d en clkfreq)) = XIL_COMPONENT_IS_READY"
    "TLR0 (snd (PWM_Initialize found d en clkfreq)) = 0"
    "TLR1 (snd (PWM_Initialize found d en clkfreq)) = 0"
    "clock_frequency (snd (PWM_Initialize found d en clkfreq)) = fl_of_u32 binary32 clkfreq"
  using assms
  by (simp_all add: PWM_Initialize_def XTmrCtr_Initialize_def Let_def split_beta
      XTmrCtr_SetControlStatusReg_def XTmrCtr_WriteReg_def XTmrCtr_ReadReg_def
      split: if_splits)

text \<open>
  C10. \<open>PWM_GetParams\<close> divides the duty register by the period register as read. When
  the period register holds 0 the divisor is the float 0: the quotient is NaN (0 / 0) or
  an infinity, the value stored for the duty factor is whatever \<open>lroundf\<close> yields for
  it, which C does not specify, and the function still returns \<open>XST_SUCCESS\<close>. The
  state is reachable: a successful \<open>PWM_Initialize\<close> leaves the period register at 0,
  and with a clock of 1024 Hz \<open>PWM_SetParams\<close> accepts the frequency 512 = clock / 2
  and stores the period count 0.
\<close>

theorem GetParams_divides_by_zero:
  "(IsReady d = XIL_COMPONENT_IS_READY \<and> TLR0 d = 0 \<longrightarrow>
      fst (PWM_GetParams tg d) = XST_SUCCESS \<and>
      fl_of_u32 binary32 (TLR0 d) = Fin 0 \<and>
      GetParams_pwm_dc (TLR0 d) (TLR1 d) = (if TLR1 d = 0 then NaN else PInf) \<and>
      snd (snd (PWM_GetParams tg d)) =
        Some (GetParams_freq tg d 0,
              word_of_int (lroundf_unspecified tg (if TLR1 d = 0 then NaN else PInf)))) \<and>
   (fst (PWM_Initialize found d0 en clkfreq) = XST_SUCCESS \<longrightarrow>
      IsReady (snd (PWM_Initialize found d0 en clkfreq)) = XIL_COMPONENT_IS_READY \<and>
      TLR0 (snd (PWM_Initialize found d0 en clkfreq)) = 0) \<and>
   (IsReady d = XIL_COMPONENT_IS_READY \<and> clock_frequency d = fl_of_u32 binary32 1024 \<longrightarrow>
      fst (PWM_SetParams tg d 512 50) = XST_SUCCESS \<and>
      TLR0 (snd (PWM_SetParams tg d 512 50)) = 0)"
proof (intro conjI impI; (elim conjE)?)
  assume rdy: "IsReady d = XIL_COMPONENT_IS_READY" and z: "TLR0 d = 0"
  show "fst (PWM_GetParams tg d) = XST_SUCCESS" using rdy by (rule PWM_GetParams_ready)
  show "fl_of_u32 binary32 (TLR0 d) = Fin 0" using z by simp
  show "GetParams_pwm_dc (TLR0 d) (TLR1 d) = (if TLR1 d = 0 then NaN else PInf)"
    using z by (simp only: GetParams_pwm_dc_zero_period)
  show "snd (snd (PWM_GetParams tg d)) =
        Some (GetParams_freq tg d 0,
              word_of_int (lroundf_unspecified tg (if TLR1 d = 0 then NaN else PInf)))"
    using PWM_GetParams_ready(2) [OF rdy, of tg] z
    by (simp only: GetParams_dutyfactor_zero_period)
next
  assume "fst (PWM_Initialize found d0 en clkfreq) = XST_SUCCESS"
  then show "IsReady (snd (PWM_Initialize found d0 en clkfreq)) = XIL_COMPONENT_IS_READY"
    "TLR0 (snd (PWM_Initialize found d0 en clkfreq)) = 0"
    by (rule PWM_Initialize_success)+
next
  assume rdy: "IsReady d = XIL_COMPONENT_IS_READY"
    and "clock_frequency d = fl_of_u32 binary32 1024"
  then have cf: "clock_frequency d = Fin 1024" by (simp add: fl_of_u32_def fl_eval)
  show ok: "fst (PWM_SetParams tg d 512 50) = XST_SUCCESS"
    using rdy by (simp add: PWM_SetParams_status SetParams_1024_512_50 [OF cf] PWM_MAXCNT_def)
  show "TLR0 (snd (PWM_SetParams tg d 512 50)) = 0"
    using PWM_SetParams_success(1) [OF rdy ok]
    by (simp add: SetParams_1024_512_50 [OF cf] u32_of_fl_values)
qed

lemma pwm_1024_init: "fst (PWM_Initialize True pwm_reset False 1024) = XST_SUCCESS"
  by (simp add: PWM_Initialize_def XTmrCtr_Initialize_def Let_def split_beta pwm_reset_def
      XTmrCtr_ReadReg_def XTC_CSR_ENABLE_TMR_MASK_def)

theorem GetParams_divides_by_zero_witness:
  "\<forall>tg. fst (PWM_Initialize True pwm_reset False 1024) = XST_SUCCESS \<and>
   IsReady pwm_1024 = XIL_COMPONENT_IS_READY \<and> TLR0 pwm_1024 = 0 \<and> TLR1 pwm_1024 = 0 \<and>
   fst (PWM_GetParams tg pwm_1024) = XST_SUCCESS \<and>
   GetParams_pwm_dc (TLR0 pwm_1024) (TLR1 pwm_1024) = NaN \<and>
   snd (snd (PWM_GetParams tg pwm_1024)) =
     Some (GetParams_freq tg pwm_1024 0, word_of_int (lroundf_unspecified tg NaN)) \<and>
   fst (PWM_SetParams tg pwm_1024 512 50) = XST_SUCCESS \<and>
   TLR0 (snd (PWM_SetParams tg pwm_1024 512 50)) = 0"
  (is "\<forall>tg. ?P tg")
proof
  fix tg
  note i = PWM_Initialize_success [OF pwm_1024_init, folded pwm_1024_def]
  show "?P tg"
    using GetParams_divides_by_zero [of pwm_1024 tg True pwm_reset False 1024] pwm_1024_init i
    by (simp add: pwm_1024_def [symmetric])
qed

section \<open>Error analysis of the parameter round trip\<close>

lemma fl_beta_gt1: "1 < fl_beta"
  by (simp add: fl_beta_def)

lemma fl_beta_pos: "0 < fl_beta ^ k"
  using fl_beta_gt1 by simp

lemma fl_beta_ge1: "1 \<le> fl_beta ^ k"
  using fl_beta_gt1 by (simp add: one_le_power)

lemma fl_beta_mono: "k \<le> l \<Longrightarrow> fl_beta ^ k \<le> fl_beta ^ l"
  using fl_beta_gt1 by (simp add: power_increasing)

lemma fl_beta_15: "fl_beta ^ 15 \<le> 1 + 1 / 2 ^ 19"
  by (simp add: fl_beta_def power_divide)

lemma rel_err_pos: "rel_err k x y \<Longrightarrow> 0 < y"
proof -
  assume r: "rel_err k x y"
  then have "0 < y * fl_beta ^ k" by (simp add: rel_err_def)
  then show ?thesis using fl_beta_pos [of k] by (rule zero_less_mult_pos2)
qed

lemma rel_err_refl: "0 < x \<Longrightarrow> rel_err 0 x x"
  by (simp add: rel_err_def)

lemma rel_err_mono: 
  assumes "rel_err k x y" "k \<le> l"
  shows "rel_err l x y"
proof -
  have y: "0 < y" using assms(1) by (rule rel_err_pos)
  have x: "0 < x" using assms(1) by (simp add: rel_err_def)
  have b: "fl_beta ^ k \<le> fl_beta ^ l" using assms(2) by (rule fl_beta_mono)
  have 1: "y * fl_beta ^ k \<le> y * fl_beta ^ l" using b y by (intro mult_left_mono) simp_all
  have 2: "x * fl_beta ^ k \<le> x * fl_beta ^ l" using b x by (intro mult_left_mono) simp_all
  have "x \<le> y * fl_beta ^ k" "y \<le> x * fl_beta ^ k" using assms(1) by (simp_all add: rel_err_def)
  with 1 2 have "x \<le> y * fl_beta ^ l" "y \<le> x * fl_beta ^ l" by linarith+
  with x show ?thesis by (simp add: rel_err_def)
qed

lemma rel_err_mult:
  assumes "rel_err k x y" "rel_err l x' y'"
  shows "rel_err (k + l) (x * x') (y * y')"
proof -
  have p: "0 < x" "0 < x'" "0 < y" "0 < y'"
    using assms rel_err_pos by (auto simp add: rel_err_def)
  have a: "x \<le> y * fl_beta ^ k" "y \<le> x * fl_beta ^ k"
    "x' \<le> y' * fl_beta ^ l" "y' \<le> x' * fl_beta ^ l"
    using assms by (simp_all add: rel_err_def)
  have "x * x' \<le> (y * fl_beta ^ k) * (y' * fl_beta ^ l)"
    using a(1,3) p by (intro mult_mono) (simp_all add: less_imp_le)
  moreover have "y * y' \<le> (x * fl_beta ^ k) * (x' * fl_beta ^ l)"
    using a(2,4) p by (intro mult_mono) (simp_all add: less_imp_le)
  ultimately show ?thesis using p by (simp add: rel_err_def power_add algebra_simps)
qed

lemma rel_err_inverse:
  assumes "rel_err k x y"
  shows "rel_err k (1 / x) (1 / y)"
proof -
  have p: "0 < x" "0 < y" using assms rel_err_pos by (auto simp add: rel_err_def)
  have a: "x \<le> y * fl_beta ^ k" "y \<le> x * fl_beta ^ k"
    using assms by (simp_all add: rel_err_def)
  have "1 / x \<le> fl_beta ^ k / y"
    using a(2) p by (simp add: field_simps)
  moreover have "1 / y \<le> fl_beta ^ k / x"
    using a(1) p by (simp add: field_simps)
  ultimately show ?thesis using p by (simp add: rel_err_def)
qed

lemma rel_err_div:
  assumes "rel_err k x y" "rel_err l x' y'"
  shows "rel_err (k + l) (x / x') (y / y')"
  using rel_err_mult [OF assms(1) rel_err_inverse [OF assms(2)]] by simp

lemma rel_err_bounds:
  assumes "rel_err k x y" "k \<le> 15"
  shows "x * (1 - 1 / 2 ^ 19) \<le> y" "y \<le> x * (1 + 1 / 2 ^ 19)"
proof -
  have r: "rel_err 15 x y" using assms by (rule rel_err_mono)
  have p: "0 < x" "0 < y" using assms rel_err_pos by (auto simp add: rel_err_def)
  have a: "x \<le> y * fl_beta ^ 15" "y \<le> x * fl_beta ^ 15"
    using r by (simp_all add: rel_err_def)
  have "x * fl_beta ^ 15 \<le> x * (1 + 1 / 2 ^ 19)"
    using fl_beta_15 p by (intro mult_left_mono) simp_all
  with a(2) show "y \<le> x * (1 + 1 / 2 ^ 19)" by linarith
  have "y * fl_beta ^ 15 \<le> y * (1 + 1 / 2 ^ 19)"
    using fl_beta_15 p by (intro mult_left_mono) simp_all
  with a(1) have "x \<le> y * (1 + 1 / 2 ^ 19)" by linarith
  then have "x * (1 - 1 / 2 ^ 19) \<le> y * ((1 + 1 / 2 ^ 19) * (1 - 1 / 2 ^ 19))"
    by (simp add: mult_right_mono mult.assoc [symmetric])
  also have "\<dots> \<le> y" using p by simp
  finally show "x * (1 - 1 / 2 ^ 19) \<le> y" .
qed

lemma fl_round_rel_step:
  assumes fmt: "24 \<le> precision fmt" "emin fmt \<le> - 126" "127 \<le> emax fmt"
    and y: "pow2 (- 126) \<le> y" "y \<le> pow2 127"
  shows "\<exists>z. fl_round fmt y = Fin z \<and> 0 < z \<and> y \<le> z * fl_beta \<and> z \<le> y * fl_beta"
proof -
  have ypos: "0 < y" using y(1) pow2_pos [of "- 126"] by linarith
  have lo: "pow2 (emin fmt) \<le> \<bar>y\<bar>"
  proof -
    have "pow2 (emin fmt) \<le> pow2 (- 126)" using fmt by (intro pow2_mono) simp
    with y ypos show ?thesis by simp
  qed
  have hi: "\<bar>y\<bar> \<le> pow2 (emax fmt)"
  proof -
    have "pow2 127 \<le> pow2 (emax fmt)" using fmt by (intro pow2_mono) simp
    with y ypos show ?thesis by simp
  qed
  have f1: "1 \<le> precision fmt" "emin fmt \<le> emax fmt" using fmt by simp_all
  from fl_round_normal [OF f1 lo hi] ypos
  obtain z where z: "fl_round fmt y = Fin z" "\<bar>z - y\<bar> \<le> y * pow2 (- int (precision fmt))" "0 < z"
    by auto
  have "pow2 (- int (precision fmt)) \<le> pow2 (- 24)" using fmt by (intro pow2_mono) simp
  then have "y * pow2 (- int (precision fmt)) \<le> y * pow2 (- 24)"
    using ypos by (intro mult_left_mono) simp_all
  with z(2) have e: "\<bar>z - y\<bar> \<le> y * (1 / 2 ^ 24)" by (simp add: pow2_def)
  then have "z \<le> y + y * (1 / 2 ^ 24)" by linarith
  also have "\<dots> \<le> y * fl_beta" using ypos by (simp add: fl_beta_def algebra_simps)
  finally have up: "z \<le> y * fl_beta" .
  from e have "y - y * (1 / 2 ^ 24) \<le> z" by linarith
  then have "y * (1 - 1 / 2 ^ 24) \<le> z" by (simp add: algebra_simps)
  then have "y * (1 - 1 / 2 ^ 24) * fl_beta \<le> z * fl_beta"
    using fl_beta_gt1 by (intro mult_right_mono) simp_all
  moreover have "y \<le> y * ((1 - 1 / 2 ^ 24) * fl_beta)"
    using ypos by (simp add: fl_beta_def)
  ultimately have "y \<le> z * fl_beta" by (simp add: mult.assoc)
  with z up show ?thesis by blast
qed

lemma rel_err_round:
  assumes fmt: "24 \<le> precision fmt" "emin fmt \<le> - 126" "127 \<le> emax fmt"
    and r: "rel_err k x y" and k: "k \<le> 15"
    and x: "pow2 (- 100) \<le> x" "x \<le> pow2 100"
  shows "\<exists>z. fl_round fmt y = Fin z \<and> rel_err (k + 1) x z"
proof -
  have xpos: "0 < x" using r by (simp add: rel_err_def)
  note b = rel_err_bounds [OF r k]
  have "pow2 (- 126) \<le> pow2 (- 100) * (1 - 1 / 2 ^ 19)" by (simp add: pow2_def)
  also have "\<dots> \<le> x * (1 - 1 / 2 ^ 19)" using x(1) by (intro mult_right_mono) simp_all
  also note b(1)
  finally have lo: "pow2 (- 126) \<le> y" .
  note b(2)
  also have "x * (1 + 1 / 2 ^ 19) \<le> pow2 100 * (1 + 1 / 2 ^ 19)"
    using x(2) by (intro mult_right_mono) simp_all
  also have "\<dots> \<le> pow2 127" by (simp add: pow2_def)
  finally have hi: "y \<le> pow2 127" .
  from fl_round_rel_step [OF fmt lo hi]
  obtain z where z: "fl_round fmt y = Fin z" "0 < z" "y \<le> z * fl_beta" "z \<le> y * fl_beta"
    by blast
  have a: "x \<le> y * fl_beta ^ k" "y \<le> x * fl_beta ^ k" using r by (simp_all add: rel_err_def)
  have "y * fl_beta ^ k \<le> (z * fl_beta) * fl_beta ^ k"
    using z(3) fl_beta_pos [of k] by (intro mult_right_mono) simp_all
  with a(1) have 1: "x \<le> z * fl_beta ^ Suc k" by (simp add: algebra_simps)
  have "y * fl_beta \<le> (x * fl_beta ^ k) * fl_beta"
    using a(2) fl_beta_gt1 by (intro mult_right_mono) simp_all
  with z(4) have 2: "z \<le> x * fl_beta ^ Suc k" by (simp add: algebra_simps)
  show ?thesis using z(1) 1 2 xpos by (auto simp add: rel_err_def)
qed

lemma rel_err_round32:
  assumes "rel_err k x y" "k < k'" "k' \<le> 16" "pow2 (- 100) \<le> x" "x \<le> pow2 100"
  shows "\<exists>z. fl_round binary32 y = Fin z \<and> rel_err k' x z"
proof -
  have "\<exists>z. fl_round binary32 y = Fin z \<and> rel_err (k + 1) x z"
    by (rule rel_err_round [OF _ _ _ assms(1) _ assms(4,5)]) (use assms(2,3) in \<open>simp_all add: binary32_def\<close>)
  then show ?thesis using assms(2) rel_err_mono [of "k + 1" x _ k'] by auto
qed

lemma rel_err_round64:
  assumes "rel_err k x y" "k < k'" "k' \<le> 16" "pow2 (- 100) \<le> x" "x \<le> pow2 100"
  shows "\<exists>z. fl_round binary64 y = Fin z \<and> rel_err k' x z"
proof -
  have "\<exists>z. fl_round binary64 y = Fin z \<and> rel_err (k + 1) x z"
    by (rule rel_err_round [OF _ _ _ assms(1) _ assms(4,5)]) (use assms(2,3) in \<open>simp_all add: binary64_def\<close>)
  then show ?thesis using assms(2) rel_err_mono [of "k + 1" x _ k'] by auto
qed

lemma pow2_numeral_bounds:
  "pow2 (- 100) \<le> 1 / 2 ^ 64" "(2::rat) ^ 64 \<le> pow2 100"
  by (simp_all add: pow2_def)

lemma range_100:
  assumes "1 / 2 ^ 64 \<le> x" "x \<le> 2 ^ 64"
  shows "pow2 (- 100) \<le> x" "x \<le> pow2 100"
  using assms pow2_numeral_bounds by linarith+

lemma recip_chain:
  assumes fmt: "fmt1 = binary32 \<or> fmt1 = binary64"
    and x: "1 \<le> x" "x \<le> 2 ^ 32"
  obtains t where "fl_convert binary32 (fl_div binary64 (Fin 1) (fl_round fmt1 x)) = Fin t"
    "rel_err 3 (1 / x) t"
proof -
  have xpos: "0 < x" using x by linarith
  have xr: "1 / 2 ^ 64 \<le> x" "x \<le> 2 ^ 64" using x by simp_all
  have r0: "rel_err 0 x x" using xpos by (rule rel_err_refl)
  have "\<exists>c. fl_round fmt1 x = Fin c \<and> rel_err 1 x c"
    using fmt rel_err_round32 [OF r0 _ _ range_100 [OF xr], of 1]
      rel_err_round64 [OF r0 _ _ range_100 [OF xr], of 1] by auto
  then obtain c where c: "fl_round fmt1 x = Fin c" "rel_err 1 x c" by blast
  have cpos: "0 < c" using c(2) by (rule rel_err_pos)
  have r1: "rel_err 1 (1 / x) (1 / c)" using c(2) by (rule rel_err_inverse)
  have ir: "1 / 2 ^ 64 \<le> 1 / x" "1 / x \<le> 2 ^ 64"
    using x xpos by (simp_all add: field_simps)
  have "\<exists>z. fl_round binary64 (1 / c) = Fin z \<and> rel_err 2 (1 / x) z"
    by (rule rel_err_round64 [OF r1 _ _ range_100 [OF ir]]) simp_all
  then obtain z where z: "fl_round binary64 (1 / c) = Fin z" "rel_err 2 (1 / x) z" by blast
  have "\<exists>t. fl_round binary32 z = Fin t \<and> rel_err 3 (1 / x) t"
    by (rule rel_err_round32 [OF z(2) _ _ range_100 [OF ir]]) simp_all
  then obtain t where t: "fl_round binary32 z = Fin t" "rel_err 3 (1 / x) t" by blast
  have "fl_convert binary32 (fl_div binary64 (Fin 1) (fl_round fmt1 x)) = Fin t"
    using c(1) cpos z(1) t(1) by (simp add: fl_convert_def)
  then show ?thesis using t(2) that by blast
qed

lemma u32_rat_bounds:
  fixes w :: u32
  shows "(of_int (uint w) :: rat) \<le> 2 ^ 32" "0 \<le> (of_int (uint w) :: rat)"
  using uint_u32_bounds [of w] by simp_all

lemma duty_chain:
  fixes duty :: u32
  assumes "1 \<le> uint duty" "uint duty \<le> 100"
  obtains dc where "SetParams_pwm_dc duty = Fin dc" "rel_err 3 (of_int (uint duty) / 100) dc"
proof -
  define D :: rat where "D = of_int (uint duty)"
  have D: "1 \<le> D" "D \<le> 100"
    using assms unfolding D_def by (simp_all only: of_int_le_iff [symmetric, where 'a = rat] of_int_1 of_int_numeral)
  have Dpos: "0 < D" using D by linarith
  have Dr: "1 / 2 ^ 64 \<le> D" "D \<le> 2 ^ 64" using D by simp_all
  have "\<exists>c. fl_round binary64 D = Fin c \<and> rel_err 1 D c"
    by (rule rel_err_round64 [OF rel_err_refl [OF Dpos] _ _ range_100 [OF Dr]]) simp_all
  then obtain c where c: "fl_round binary64 D = Fin c" "rel_err 1 D c" by blast
  have r1: "rel_err 1 (D / 100) (c / 100)"
    using rel_err_div [OF c(2) rel_err_refl [of 100]] by simp
  have qr: "1 / 2 ^ 64 \<le> D / 100" "D / 100 \<le> 2 ^ 64" using D by simp_all
  have "\<exists>z. fl_round binary64 (c / 100) = Fin z \<and> rel_err 2 (D / 100) z"
    by (rule rel_err_round64 [OF r1 _ _ range_100 [OF qr]]) simp_all
  then obtain z where z: "fl_round binary64 (c / 100) = Fin z" "rel_err 2 (D / 100) z" by blast
  have "\<exists>dc. fl_round binary32 z = Fin dc \<and> rel_err 3 (D / 100) dc"
    by (rule rel_err_round32 [OF z(2) _ _ range_100 [OF qr]]) simp_all
  then obtain dc where t: "fl_round binary32 z = Fin dc" "rel_err 3 (D / 100) dc" by blast
  have "SetParams_pwm_dc duty = Fin dc"
    using c(1) z(1) t(1) by (simp add: SetParams_pwm_dc_def fl_of_u32_def fl_convert_def D_def)
  then show ?thesis using t(2) that unfolding D_def by blast
qed

lemma of_int_uint_ge1:
  fixes w :: u32
  assumes "1 \<le> uint w"
  shows "(1::rat) \<le> of_int (uint w)"
  using assms by (simp only: of_int_le_iff [symmetric, where 'a = rat] of_int_1)

lemma SetParams_values:
  fixes clk freq duty :: u32
  assumes cf: "clock_frequency d = fl_of_u32 binary32 clk"
    and c1: "1 \<le> uint clk" and f1: "1 \<le> uint freq" and d100: "uint duty \<le> 100"
  obtains t r q where
    "timer_clock_period d = Fin t" "rel_err 3 (1 / of_int (uint clk)) t"
    "SetParams_tlr0 d freq = fl_round binary32 (r - 2)"
    "rel_err 7 (of_int (uint clk) / of_int (uint freq)) r"
    "SetParams_tlr1_raw d freq duty = fl_round binary32 (q - 2)"
    "(uint duty = 0 \<and> q = 0) \<or>
     (1 \<le> uint duty \<and>
      rel_err 11 (of_int (uint clk) / of_int (uint freq) * of_int (uint duty) / 100) q)"
proof -
  define C :: rat where "C = of_int (uint clk)"
  define F :: rat where "F = of_int (uint freq)"
  define D :: rat where "D = of_int (uint duty)"
  have C: "1 \<le> C" "C \<le> 2 ^ 32" unfolding C_def using c1 by (simp_all only: of_int_uint_ge1 u32_rat_bounds)
  have F: "1 \<le> F" "F \<le> 2 ^ 32" unfolding F_def using f1 by (simp_all only: of_int_uint_ge1 u32_rat_bounds)
  obtain t where t: "timer_clock_period d = Fin t" "rel_err 3 (1 / C) t"
    using recip_chain [of binary32 C] C
    by (auto simp add: timer_clock_period_def cf fl_of_u32_def C_def)
  obtain p where p: "SetParams_pwm_period freq = Fin p" "rel_err 3 (1 / F) p"
    using recip_chain [of binary64 F] F
    by (auto simp add: SetParams_pwm_period_def fl_of_u32_def F_def)
  have Fpos: "0 < F" "0 \<le> F" using F by linarith+
  have Cpos: "0 < C" "0 \<le> C" using C by linarith+
  have tpos: "0 < t" using t(2) by (rule rel_err_pos)
  have ppos: "0 < p" using p(2) by (rule rel_err_pos)
  have Npos: "0 < C / F" using C F by simp
  have NF: "1 / F / (1 / C) = C / F" using C F by simp
  have Nr: "1 / 2 ^ 64 \<le> C / F" "C / F \<le> 2 ^ 64"
  proof -
    have "1 / 2 ^ 32 \<le> 1 / F" using F by (simp add: field_simps)
    also have "1 / F \<le> C / F" using C F by (simp add: divide_right_mono)
    finally have "1 / 2 ^ 32 \<le> C / F" .
    moreover have "(1::rat) / 2 ^ 64 \<le> 1 / 2 ^ 32" by simp
    ultimately show "1 / 2 ^ 64 \<le> C / F" by (rule order_trans [rotated])
    have "C / F \<le> C / 1" using C F by (intro divide_left_mono) simp_all
    then show "C / F \<le> 2 ^ 64" using C by simp
  qed
  have "rel_err 6 (1 / F / (1 / C)) (p / t)"
    using rel_err_div [OF p(2) t(2)] by simp
  then have r6: "rel_err 6 (C / F) (p / t)" by (simp only: NF)
  have "\<exists>r. fl_round binary32 (p / t) = Fin r \<and> rel_err 7 (C / F) r"
    by (rule rel_err_round32 [OF r6 _ _ range_100 [OF Nr]]) simp_all
  then obtain r where r: "fl_round binary32 (p / t) = Fin r" "rel_err 7 (C / F) r" by blast
  have tlr0: "SetParams_tlr0 d freq = fl_round binary32 (r - 2)"
    using t(1) p(1) r(1) tpos by (simp add: SetParams_tlr0_def fl_sub_def fl_neg_def)
  have raw: "SetParams_tlr1_raw d freq duty =
      fl_sub binary32 (fl_div binary32 (fl_mul binary32 (Fin p) (SetParams_pwm_dc duty)) (Fin t)) (Fin 2)"
    using t(1) p(1) by (simp add: SetParams_tlr1_raw_def)
  show ?thesis
  proof (cases "uint duty = 0")
    case True
    then have "duty = 0" by (simp add: uint_0_iff)
    then have "SetParams_pwm_dc duty = Fin 0" by (simp add: SetParams_pwm_dc_def fl_convert_def)
    then have "SetParams_tlr1_raw d freq duty = fl_round binary32 (0 - 2)"
      using raw tpos by (simp add: fl_sub_def fl_neg_def)
    with True t tlr0 r(2) that show ?thesis unfolding C_def F_def by blast
  next
    case False
    then have d1: "1 \<le> uint duty" using uint_ge_0 [of duty] by linarith
    have D: "1 \<le> D" "D \<le> 100" unfolding D_def
      using d1 d100 by (simp_all only: of_int_le_iff [symmetric, where 'a = rat] of_int_1 of_int_numeral)
    obtain dc where dc: "SetParams_pwm_dc duty = Fin dc" "rel_err 3 (D / 100) dc"
      using duty_chain [OF d1 d100] unfolding D_def by blast
    have r6m: "rel_err 6 (1 / F * (D / 100)) (p * dc)"
      using rel_err_mult [OF p(2) dc(2)] by simp
    have mr: "1 / 2 ^ 64 \<le> 1 / F * (D / 100)" "1 / F * (D / 100) \<le> 2 ^ 64"
    proof -
      have a: "1 / 2 ^ 32 \<le> 1 / F" "1 / F \<le> 1" using F by (simp_all add: field_simps)
      have b: "1 / 100 \<le> D / 100" "D / 100 \<le> 1" using D by simp_all
      have "1 / 2 ^ 32 * (1 / 100) \<le> 1 / F * (D / 100)"
        using a b Fpos by (intro mult_mono) simp_all
      moreover have "(1::rat) / 2 ^ 64 \<le> 1 / 2 ^ 32 * (1 / 100)" by simp
      ultimately show "1 / 2 ^ 64 \<le> 1 / F * (D / 100)" by (rule order_trans [rotated])
      have "1 / F * (D / 100) \<le> 1 * 1" using a b Fpos D by (intro mult_mono) simp_all
      then show "1 / F * (D / 100) \<le> 2 ^ 64" by simp
    qed
    have "\<exists>m. fl_round binary32 (p * dc) = Fin m \<and> rel_err 7 (1 / F * (D / 100)) m"
      by (rule rel_err_round32 [OF r6m _ _ range_100 [OF mr]]) simp_all
    then obtain m where m: "fl_round binary32 (p * dc) = Fin m" "rel_err 7 (1 / F * (D / 100)) m"
      by blast
    have A: "1 / F * (D / 100) / (1 / C) = C / F * D / 100" using C F by simp
    have "rel_err 10 (1 / F * (D / 100) / (1 / C)) (m / t)"
      using rel_err_div [OF m(2) t(2)] by simp
    then have r10: "rel_err 10 (C / F * D / 100) (m / t)" by (simp only: A)
    have qr: "1 / 2 ^ 64 \<le> C / F * D / 100" "C / F * D / 100 \<le> 2 ^ 64"
    proof -
      have b: "1 / 100 \<le> D / 100" "D / 100 \<le> 1" using D by simp_all
      have c: "1 / 2 ^ 32 \<le> C / F" "C / F \<le> 2 ^ 32"
      proof -
        have "1 / 2 ^ 32 \<le> 1 / F" using F by (simp add: field_simps)
        also have "1 / F \<le> C / F" using C F by (simp add: divide_right_mono)
        finally show "1 / 2 ^ 32 \<le> C / F" .
        have "C / F \<le> C / 1" using C F by (intro divide_left_mono) simp_all
        then show "C / F \<le> 2 ^ 32" using C by simp
      qed
      have "1 / 2 ^ 32 * (1 / 100) \<le> C / F * (D / 100)"
        using b c Fpos Cpos by (intro mult_mono) simp_all
      moreover have "(1::rat) / 2 ^ 64 \<le> 1 / 2 ^ 32 * (1 / 100)" by simp
      ultimately show "1 / 2 ^ 64 \<le> C / F * D / 100" by simp
      have "C / F * (D / 100) \<le> 2 ^ 32 * 1" using b c Npos Fpos Cpos D by (intro mult_mono) simp_all
      then show "C / F * D / 100 \<le> 2 ^ 64" by simp
    qed
    have "\<exists>q. fl_round binary32 (m / t) = Fin q \<and> rel_err 11 (C / F * D / 100) q"
      by (rule rel_err_round32 [OF r10 _ _ range_100 [OF qr]]) simp_all
    then obtain q where q: "fl_round binary32 (m / t) = Fin q" "rel_err 11 (C / F * D / 100) q"
      by blast
    have "SetParams_tlr1_raw d freq duty = fl_round binary32 (q - 2)"
      using raw dc(1) m(1) q(1) tpos by (simp add: fl_sub_def fl_neg_def)
    with d1 q(2) t tlr0 r(2) that show ?thesis unfolding C_def F_def D_def by blast
  qed
qed

lemma fl_round_binary32_step:
  assumes "pow2 (- 126) \<le> y" "y \<le> pow2 127"
  shows "\<exists>z. fl_round binary32 y = Fin z \<and> 0 < z \<and> y \<le> z * fl_beta \<and> z \<le> y * fl_beta"
  by (rule fl_round_rel_step [OF _ _ _ assms]) (simp_all add: binary32_def)

lemma pow2_126: "pow2 (- 126) \<le> 1 / 4" "(2::rat) ^ 32 \<le> pow2 127"
  by (simp_all add: pow2_def)

lemma floor_bounds_rat:
  fixes z :: rat
  shows "of_int \<lfloor>z\<rfloor> \<le> z" "z - 1 < of_int \<lfloor>z\<rfloor>"
  by linarith+

lemma uint_word_of_int_u32:
  assumes "0 \<le> k" "k < 2 ^ 32"
  shows "uint (word_of_int k :: u32) = k"
  using assms by (simp add: uint_word_of_int_eq take_bit_int_eq_self)

lemma of_int_u32_hyps:
  fixes clk freq :: u32
  assumes f1: "1 \<le> uint freq" and n: "256 * uint freq \<le> uint clk" and c31: "uint clk < 2 ^ 31"
  shows "(1::rat) \<le> of_int (uint freq)" "(256::rat) * of_int (uint freq) \<le> of_int (uint clk)"
    "(of_int (uint clk) :: rat) < 2 ^ 31"
proof -
  show "(1::rat) \<le> of_int (uint freq)" using f1 by (rule of_int_uint_ge1)
  have "(of_int (256 * uint freq) :: rat) \<le> of_int (uint clk)" using n by (simp only: of_int_le_iff)
  then show "(256::rat) * of_int (uint freq) \<le> of_int (uint clk)" by (simp only: of_int_mult of_int_numeral)
  show "(of_int (uint clk) :: rat) < 2 ^ 31" using c31 by (rule of_int_less_pow2)
qed

lemma count_round:
  assumes x: "N * (1 - 1 / 2 ^ 19) \<le> r" "r \<le> N * (1 + 1 / 2 ^ 19)"
    and N: "5 / 2 \<le> N" "N \<le> 2 ^ 31"
  obtains z where "fl_round binary32 (r - 2) = Fin z" "0 < z"
    "N * (1 - 1 / 2 ^ 18) - 2 \<le> z" "z \<le> N * (1 + 1 / 2 ^ 18) - 2" "z < 2 ^ 32 - 1"
proof -
  have lo: "pow2 (- 126) \<le> r - 2" using x(1) N(1) pow2_126(1) by (simp add: algebra_simps)
  have hi: "r - 2 \<le> pow2 127" using x(2) N(2) pow2_126(2) by (simp add: algebra_simps)
  from fl_round_binary32_step [OF lo hi]
  obtain z where z: "fl_round binary32 (r - 2) = Fin z" "0 < z" "r - 2 \<le> z * fl_beta"
    "z \<le> (r - 2) * fl_beta" by blast
  have Npos: "0 < N" using N by linarith
  have 1: "N * (1 - 1 / 2 ^ 18) - 2 \<le> z"
    using z(3) x(1) Npos unfolding fl_beta_def by (simp add: algebra_simps) 
  have 2: "z \<le> N * (1 + 1 / 2 ^ 18) - 2"
    using z(4) x(2) Npos unfolding fl_beta_def by (simp add: algebra_simps)
  have 3: "z < 2 ^ 32 - 1" using 2 N(2) by (simp add: algebra_simps)
  show ?thesis using z(1,2) 1 2 3 that by blast
qed

lemma u32_of_fl_in_range:
  assumes "0 \<le> z" "z < 2 ^ 32"
  shows "u32_of_fl tg (Fin z) = word_of_int \<lfloor>z\<rfloor>"
  using assms by (simp add: u32_of_fl_def)

lemma floor_u32_range:
  fixes z :: rat
  assumes "0 \<le> z" "z < 2 ^ 32"
  shows "0 \<le> \<lfloor>z\<rfloor>" "\<lfloor>z\<rfloor> < 2 ^ 32"
proof -
  show "0 \<le> \<lfloor>z\<rfloor>" using assms(1) by simp
  have "z < of_int (2 ^ 32)" using assms(2) by simp
  then show "\<lfloor>z\<rfloor> < 2 ^ 32" by (simp only: floor_less_iff)
qed

lemma fl_round_minus_two: "fl_round binary32 (- 2) = Fin (- 2)"
  using fl_round_binary32_exact [of "- 2" "- 2" 0] by (simp add: pow2_def)

lemma SetParams_registers:
  fixes clk freq duty :: u32
  assumes rdy: "IsReady d = XIL_COMPONENT_IS_READY"
    and cf: "clock_frequency d = fl_of_u32 binary32 clk"
    and f1: "1 \<le> uint freq" and n: "256 * uint freq \<le> uint clk" and c31: "uint clk < 2 ^ 31"
    and d100: "uint duty \<le> 100"
  defines "N \<equiv> (of_int (uint clk) :: rat) / of_int (uint freq)"
  defines "A \<equiv> N * of_int (uint duty) / 100"
  obtains T0 T1 where
    "fst (PWM_SetParams tg d freq duty) = XST_SUCCESS"
    "TLR0 (snd (PWM_SetParams tg d freq duty)) = word_of_int T0"
    "TLR1 (snd (PWM_SetParams tg d freq duty)) = word_of_int T1"
    "0 \<le> T0" "T0 < 2 ^ 32" "0 \<le> T1" "T1 < 2 ^ 32"
    "N * (1 - 1 / 2 ^ 18) - 3 < of_int T0" "of_int T0 \<le> N * (1 + 1 / 2 ^ 18) - 2"
    "(uint duty = 0 \<and> T1 = 0) \<or>
     (1 \<le> uint duty \<and> A * (1 - 1 / 2 ^ 18) - 3 < of_int T1 \<and>
      of_int T1 \<le> A * (1 + 1 / 2 ^ 18) - 2)"
proof -
  define C :: rat where "C = of_int (uint clk)"
  define F :: rat where "F = of_int (uint freq)"
  define D :: rat where "D = of_int (uint duty)"
  note h = of_int_u32_hyps [OF f1 n c31, folded C_def F_def]
  have Fpos: "0 < F" using h(1) by linarith
  have N256: "256 \<le> N" unfolding N_def C_def [symmetric] F_def [symmetric]
    using h(2) Fpos by (simp add: pos_le_divide_eq)
  have Nle: "N \<le> 2 ^ 31"
  proof -
    have "C / F \<le> C / 1" using h(1) h(2) Fpos by (intro divide_left_mono) simp_all
    then show ?thesis unfolding N_def C_def [symmetric] F_def [symmetric] using h(3) by simp
  qed
  have c1: "1 \<le> uint clk" using f1 n by linarith
  obtain t r q where v:
    "timer_clock_period d = Fin t" "rel_err 3 (1 / C) t"
    "SetParams_tlr0 d freq = fl_round binary32 (r - 2)"
    "rel_err 7 N r"
    "SetParams_tlr1_raw d freq duty = fl_round binary32 (q - 2)"
    "(uint duty = 0 \<and> q = 0) \<or> (1 \<le> uint duty \<and> rel_err 11 A q)"
    using SetParams_values [OF cf c1 f1 d100]
    unfolding N_def A_def C_def by blast
  note rb = rel_err_bounds [OF v(4)]
  obtain z0 where z0: "fl_round binary32 (r - 2) = Fin z0" "0 < z0"
    "N * (1 - 1 / 2 ^ 18) - 2 \<le> z0" "z0 \<le> N * (1 + 1 / 2 ^ 18) - 2" "z0 < 2 ^ 32 - 1"
    using count_round [of N r] rb N256 Nle by auto
  have z0r: "0 \<le> z0" "z0 < 2 ^ 32" using z0(2,5) by simp_all
  define T0 where "T0 = \<lfloor>z0\<rfloor>"
  have T0: "0 \<le> T0" "T0 < 2 ^ 32" unfolding T0_def using floor_u32_range [OF z0r] by simp_all
  have T0b: "N * (1 - 1 / 2 ^ 18) - 3 < of_int T0" "of_int T0 \<le> N * (1 + 1 / 2 ^ 18) - 2"
    using z0(3,4) floor_bounds_rat [of z0] unfolding T0_def by linarith+
  have tlr0: "SetParams_tlr0 d freq = Fin z0" using v(3) z0(1) by simp
  have dle: "\<not> 100 < duty" using d100 by (simp add: word_less_def)
  have ok0: "\<not> fl_less PWM_MAXCNT (SetParams_tlr0 d freq)"
    using z0(5) by (simp add: tlr0 PWM_MAXCNT_def)
  have "\<exists>z1 T1. SetParams_tlr1 d freq duty = Fin z1 \<and> 0 \<le> z1 \<and> z1 < 2 ^ 32 - 1 \<and> T1 = \<lfloor>z1\<rfloor> \<and>
      ((uint duty = 0 \<and> T1 = 0) \<or>
       (1 \<le> uint duty \<and> A * (1 - 1 / 2 ^ 18) - 3 < of_int T1 \<and>
        of_int T1 \<le> A * (1 + 1 / 2 ^ 18) - 2))"
  proof (cases "uint duty = 0")
    case True
    with v(6) have "q = 0" by auto
    then have "SetParams_tlr1_raw d freq duty = Fin (- 2)" using v(5) fl_round_minus_two by simp
    then have "SetParams_tlr1 d freq duty = Fin 0" by (simp add: SetParams_tlr1_def)
    with True show ?thesis by simp
  next
    case False
    with v(6) have d1: "1 \<le> uint duty" and q: "rel_err 11 A q" by auto
    have D1: "1 \<le> D" "D \<le> 100" unfolding D_def
      using d1 d100 by (simp_all only: of_int_le_iff [symmetric, where 'a = rat] of_int_1 of_int_numeral)
    have A: "A = N * D / 100" by (simp add: A_def D_def)
    have Alo: "5 / 2 \<le> A" using N256 D1 unfolding A
    proof -
      have "256 * 1 \<le> N * D" using N256 D1 by (intro mult_mono) simp_all
      then show "5 / 2 \<le> N * D / 100" by simp
    qed
    have Ahi: "A \<le> 2 ^ 31"
    proof -
      have "N * D \<le> 2 ^ 31 * 100" using Nle D1 N256 by (intro mult_mono) simp_all
      then show ?thesis unfolding A by simp
    qed
    note qb = rel_err_bounds [OF q]
    obtain z1 where z1: "fl_round binary32 (q - 2) = Fin z1" "0 < z1"
      "A * (1 - 1 / 2 ^ 18) - 2 \<le> z1" "z1 \<le> A * (1 + 1 / 2 ^ 18) - 2" "z1 < 2 ^ 32 - 1"
      using count_round [of A q] qb Alo Ahi by auto
    have "SetParams_tlr1_raw d freq duty = Fin z1" using v(5) z1(1) by simp
    then have t1: "SetParams_tlr1 d freq duty = Fin z1" using z1(2) by (simp add: SetParams_tlr1_def)
    have "A * (1 - 1 / 2 ^ 18) - 3 < of_int \<lfloor>z1\<rfloor>" "of_int \<lfloor>z1\<rfloor> \<le> A * (1 + 1 / 2 ^ 18) - 2"
      using z1(3,4) floor_bounds_rat [of z1] by linarith+
    with t1 z1(2,5) d1 show ?thesis by (auto simp add: less_imp_le)
  qed
  then obtain z1 T1 where z1: "SetParams_tlr1 d freq duty = Fin z1" "0 \<le> z1" "z1 < 2 ^ 32 - 1"
    "T1 = \<lfloor>z1\<rfloor>"
    "(uint duty = 0 \<and> T1 = 0) \<or>
       (1 \<le> uint duty \<and> A * (1 - 1 / 2 ^ 18) - 3 < of_int T1 \<and>
        of_int T1 \<le> A * (1 + 1 / 2 ^ 18) - 2)" by blast
  have z1r: "0 \<le> z1" "z1 < 2 ^ 32" using z1(2,3) by simp_all
  have T1: "0 \<le> T1" "T1 < 2 ^ 32" unfolding z1(4) using floor_u32_range [OF z1r] by simp_all
  have ok1: "\<not> fl_less PWM_MAXCNT (SetParams_tlr1 d freq duty)"
    using z1(3) by (simp add: z1(1) PWM_MAXCNT_def)
  have ok: "fst (PWM_SetParams tg d freq duty) = XST_SUCCESS"
    using dle ok0 ok1 by (simp add: PWM_SetParams_status [OF rdy])
  note s = PWM_SetParams_success [OF rdy ok]
  have r0: "TLR0 (snd (PWM_SetParams tg d freq duty)) = word_of_int T0"
    using s(1) by (simp add: tlr0 u32_of_fl_in_range [OF z0r] T0_def)
  have r1: "TLR1 (snd (PWM_SetParams tg d freq duty)) = word_of_int T1"
    using s(2) by (simp add: z1(1) u32_of_fl_in_range [OF z1r] z1(4))
  show ?thesis using that [OF ok r0 r1 T0 T1 T0b z1(5)] .
qed

lemma div_mult_cancel_right:
  fixes a b c :: rat
  shows "b \<noteq> 0 \<Longrightarrow> a / b * c * b = a * c"
  by simp

lemma freq_window:
  fixes F N T x :: rat
  assumes F: "1 \<le> F" "F \<le> N" "F \<le> 46340" and N: "256 \<le> N"
    and T: "N * (1 - 1 / 2 ^ 18) - 3 < T" "T \<le> N * (1 + 1 / 2 ^ 18) - 2"
    and x: "F * N / (T + 2) * (1 - 1 / 2 ^ 19) \<le> x" "x \<le> F * N / (T + 2) * (1 + 1 / 2 ^ 19)"
  shows "F - 3 / 2 \<le> x" "x < F + 3 / 2"
proof -
  have Tpos: "0 < T + 2" using T(1) N by (simp add: algebra_simps)
  define Y where "Y = F * N"
  have FN: "Y \<le> 46340 * N" unfolding Y_def using F(3) N by (intro mult_right_mono) simp_all
  have FNpos: "0 \<le> F * N" using F N by simp
  have up: "x * (T + 2) \<le> F * N * (1 + 1 / 2 ^ 19)"
  proof -
    have "x * (T + 2) \<le> F * N / (T + 2) * (1 + 1 / 2 ^ 19) * (T + 2)"
      using x(2) Tpos by (intro mult_right_mono) simp_all
    also have "\<dots> = F * N * (1 + 1 / 2 ^ 19)"
      using Tpos by (intro div_mult_cancel_right) simp
    finally show ?thesis .
  qed
  have lo: "F * N * (1 - 1 / 2 ^ 19) \<le> x * (T + 2)"
  proof -
    have "F * N / (T + 2) * (1 - 1 / 2 ^ 19) * (T + 2) \<le> x * (T + 2)"
      using x(1) Tpos by (intro mult_right_mono) simp_all
    moreover have "F * N / (T + 2) * (1 - 1 / 2 ^ 19) * (T + 2) = F * N * (1 - 1 / 2 ^ 19)"
      using Tpos by (intro div_mult_cancel_right) simp
    ultimately show ?thesis by (simp only:)
  qed
  show "x < F + 3 / 2"
  proof (rule ccontr)
    assume "\<not> x < F + 3 / 2"
    then have a: "F + 3 / 2 \<le> x" by simp
    have "(F + 3 / 2) * (T + 2) \<le> x * (T + 2)"
      using a Tpos by (intro mult_right_mono) simp_all
    moreover have "(F + 3 / 2) * (N * (1 - 1 / 2 ^ 18) - 1) < (F + 3 / 2) * (T + 2)"
      using T(1) F(1) by (intro mult_strict_left_mono) (simp_all add: algebra_simps)
    ultimately have "(F + 3 / 2) * (N * (1 - 1 / 2 ^ 18) - 1) < F * N * (1 + 1 / 2 ^ 19)"
      using up by linarith
    moreover have "(F + 3 / 2) * (N * (1 - 1 / 2 ^ 18) - 1) =
        Y * (1 - 1 / 2 ^ 18) - F + 3 / 2 * (1 - 1 / 2 ^ 18) * N - 3 / 2"
      by (simp add: Y_def field_simps)
    ultimately have "Y * (1 - 1 / 2 ^ 18) - F + 3 / 2 * (1 - 1 / 2 ^ 18) * N - 3 / 2 <
        Y * (1 + 1 / 2 ^ 19)"
      by (simp only: Y_def)
    then show False using FN F N by (simp add: algebra_simps)
  qed
  show "F - 3 / 2 \<le> x"
  proof (rule ccontr)
    assume "\<not> F - 3 / 2 \<le> x"
    then have a: "x < F - 3 / 2" by simp
    have xpos: "0 \<le> x"
    proof -
      have "0 \<le> F * N / (T + 2) * (1 - 1 / 2 ^ 19)" using FNpos Tpos by simp
      with x(1) show ?thesis by linarith
    qed
    with a have F32: "0 < F - 3 / 2" by linarith
    have "x * (T + 2) < (F - 3 / 2) * (T + 2)"
      using a Tpos by (intro mult_strict_right_mono) simp_all
    moreover have "(F - 3 / 2) * (T + 2) \<le> (F - 3 / 2) * (N * (1 + 1 / 2 ^ 18))"
      using T(2) F32 by (intro mult_left_mono) (simp_all add: algebra_simps)
    ultimately have "F * N * (1 - 1 / 2 ^ 19) < (F - 3 / 2) * (N * (1 + 1 / 2 ^ 18))"
      using lo by linarith
    moreover have "(F - 3 / 2) * (N * (1 + 1 / 2 ^ 18)) =
        Y * (1 + 1 / 2 ^ 18) - 3 / 2 * (1 + 1 / 2 ^ 18) * N"
      by (simp add: Y_def field_simps)
    ultimately have "Y * (1 - 1 / 2 ^ 19) < Y * (1 + 1 / 2 ^ 18) - 3 / 2 * (1 + 1 / 2 ^ 18) * N"
      by (simp only: Y_def)
    then show False using FN F N by (simp add: algebra_simps)
  qed
qed

lemma duty_window:
  fixes D N T0 T1 e :: rat
  assumes D: "1 \<le> D" "D \<le> 100" and N: "256 \<le> N"
    and T0: "N * (1 - 1 / 2 ^ 18) - 3 < T0" "T0 \<le> N * (1 + 1 / 2 ^ 18) - 2"
    and T1: "N * D / 100 * (1 - 1 / 2 ^ 18) - 3 < T1" "T1 \<le> N * D / 100 * (1 + 1 / 2 ^ 18) - 2"
      "0 \<le> T1"
    and e: "T1 / T0 * 100 * (1 - 1 / 2 ^ 19) \<le> e" "e \<le> T1 / T0 * 100 * (1 + 1 / 2 ^ 19)"
  shows "D - 3 / 2 \<le> e" "e < D + 3 / 2"
proof -
  have Tpos: "0 < T0" using T0(1) N by (simp add: algebra_simps)
  define X where "X = N * D"
  have ND: "X \<le> 100 * N" "N \<le> X" "0 \<le> X"
    unfolding X_def using D N by (simp_all add: mult_left_mono)
  have up: "e * T0 \<le> T1 * 100 * (1 + 1 / 2 ^ 19)"
  proof -
    have "e * T0 \<le> T1 / T0 * 100 * (1 + 1 / 2 ^ 19) * T0"
      using e(2) Tpos by (intro mult_right_mono) simp_all
    also have "\<dots> = T1 * 100 * (1 + 1 / 2 ^ 19)"
      using Tpos div_mult_cancel_right [of T0 T1 "100 * (1 + 1 / 2 ^ 19)"]
      by (simp only: mult.assoc)
    finally show ?thesis .
  qed
  have lo: "T1 * 100 * (1 - 1 / 2 ^ 19) \<le> e * T0"
  proof -
    have "T1 / T0 * 100 * (1 - 1 / 2 ^ 19) * T0 \<le> e * T0"
      using e(1) Tpos by (intro mult_right_mono) simp_all
    moreover have "T1 / T0 * 100 * (1 - 1 / 2 ^ 19) * T0 = T1 * 100 * (1 - 1 / 2 ^ 19)"
      using Tpos div_mult_cancel_right [of T0 T1 "100 * (1 - 1 / 2 ^ 19)"]
      by (simp only: mult.assoc)
    ultimately show ?thesis by (simp only:)
  qed
  show "e < D + 3 / 2"
  proof (rule ccontr)
    assume "\<not> e < D + 3 / 2"
    then have a: "D + 3 / 2 \<le> e" by simp
    have "(D + 3 / 2) * T0 \<le> e * T0" using a Tpos by (intro mult_right_mono) simp_all
    moreover have "(D + 3 / 2) * (N * (1 - 1 / 2 ^ 18) - 3) < (D + 3 / 2) * T0"
      using T0(1) D(1) by (intro mult_strict_left_mono) simp_all
    moreover have "T1 * 100 * (1 + 1 / 2 ^ 19) \<le>
        (N * D / 100 * (1 + 1 / 2 ^ 18) - 2) * 100 * (1 + 1 / 2 ^ 19)"
      using T1(2) by (simp add: algebra_simps)
    ultimately have "(D + 3 / 2) * (N * (1 - 1 / 2 ^ 18) - 3) <
        (N * D / 100 * (1 + 1 / 2 ^ 18) - 2) * 100 * (1 + 1 / 2 ^ 19)"
      using up by linarith
    moreover have "(D + 3 / 2) * (N * (1 - 1 / 2 ^ 18) - 3) =
        X * (1 - 1 / 2 ^ 18) - 3 * D + 3 / 2 * (1 - 1 / 2 ^ 18) * N - 9 / 2"
      by (simp add: X_def field_simps)
    moreover have "(N * D / 100 * (1 + 1 / 2 ^ 18) - 2) * 100 * (1 + 1 / 2 ^ 19) =
        X * ((1 + 1 / 2 ^ 18) * (1 + 1 / 2 ^ 19)) - 200 * (1 + 1 / 2 ^ 19)"
      by (simp add: X_def field_simps)
    ultimately have "X * (1 - 1 / 2 ^ 18) - 3 * D + 3 / 2 * (1 - 1 / 2 ^ 18) * N - 9 / 2 <
        X * ((1 + 1 / 2 ^ 18) * (1 + 1 / 2 ^ 19)) - 200 * (1 + 1 / 2 ^ 19)"
      by (simp only:)
    then show False using ND D N by (simp add: algebra_simps)
  qed
  show "D - 3 / 2 \<le> e"
  proof (rule ccontr)
    assume "\<not> D - 3 / 2 \<le> e"
    then have a: "e < D - 3 / 2" by simp
    have epos: "0 \<le> e"
    proof -
      have "0 \<le> T1 / T0 * 100 * (1 - 1 / 2 ^ 19)" using T1(3) Tpos by simp
      with e(1) show ?thesis by linarith
    qed
    with a have D32: "0 < D - 3 / 2" by linarith
    have "e * T0 < (D - 3 / 2) * T0" using a Tpos by (intro mult_strict_right_mono) simp_all
    moreover have "(D - 3 / 2) * T0 \<le> (D - 3 / 2) * (N * (1 + 1 / 2 ^ 18) - 2)"
      using T0(2) D32 by (intro mult_left_mono) simp_all
    moreover have "(N * D / 100 * (1 - 1 / 2 ^ 18) - 3) * 100 * (1 - 1 / 2 ^ 19) \<le>
        T1 * 100 * (1 - 1 / 2 ^ 19)"
      using T1(1) by (simp add: algebra_simps)
    ultimately have "(N * D / 100 * (1 - 1 / 2 ^ 18) - 3) * 100 * (1 - 1 / 2 ^ 19) <
        (D - 3 / 2) * (N * (1 + 1 / 2 ^ 18) - 2)"
      using lo by linarith
    moreover have "(D - 3 / 2) * (N * (1 + 1 / 2 ^ 18) - 2) =
        X * (1 + 1 / 2 ^ 18) - 2 * D - 3 / 2 * (1 + 1 / 2 ^ 18) * N + 3"
      by (simp add: X_def field_simps)
    moreover have "(N * D / 100 * (1 - 1 / 2 ^ 18) - 3) * 100 * (1 - 1 / 2 ^ 19) =
        X * ((1 - 1 / 2 ^ 18) * (1 - 1 / 2 ^ 19)) - 300 * (1 - 1 / 2 ^ 19)"
      by (simp add: X_def field_simps)
    ultimately have "X * ((1 - 1 / 2 ^ 18) * (1 - 1 / 2 ^ 19)) - 300 * (1 - 1 / 2 ^ 19) <
        X * (1 + 1 / 2 ^ 18) - 2 * D - 3 / 2 * (1 + 1 / 2 ^ 18) * N + 3"
      by (simp only:)
    then show False using ND D N by (simp add: algebra_simps)
  qed
qed

lemma round_half_away_window:
  assumes "of_int f - 3 / 2 \<le> x" "x < of_int f + 3 / 2" "0 \<le> x"
  shows "f - 1 \<le> round_half_away x" "round_half_away x \<le> f + 1"
proof -
  have r: "round_half_away x = \<lfloor>x + 1 / 2\<rfloor>" using assms(3) by (simp add: round_half_away_def)
  have "of_int (f - 1) \<le> x + 1 / 2" using assms(1) by simp
  then show "f - 1 \<le> round_half_away x" unfolding r by (simp only: le_floor_iff)
  have "x + 1 / 2 < of_int (f + 2)" using assms(2) by simp
  then have "\<lfloor>x + 1 / 2\<rfloor> < f + 2" by (simp only: floor_less_iff)
  then show "round_half_away x \<le> f + 1" unfolding r by simp
qed

lemma rel_err_add_const:
  assumes "rel_err k x y" "0 \<le> c"
  shows "rel_err k (x + c) (y + c)"
proof -
  have p: "0 < x" "x \<le> y * fl_beta ^ k" "y \<le> x * fl_beta ^ k"
    using assms(1) by (simp_all add: rel_err_def)
  have c: "c \<le> c * fl_beta ^ k"
    using fl_beta_ge1 [of k] assms(2) by (simp add: mult_le_cancel_left1)
  have "x + c \<le> (y + c) * fl_beta ^ k" "y + c \<le> (x + c) * fl_beta ^ k"
    using p c by (simp_all add: algebra_simps)
  then show ?thesis using p(1) assms(2) by (simp add: rel_err_def)
qed

lemma timer_clock_period_rel:
  fixes clk :: u32
  assumes cf: "clock_frequency d = fl_of_u32 binary32 clk" and c1: "1 \<le> uint clk"
  obtains t where "timer_clock_period d = Fin t" "rel_err 3 (1 / of_int (uint clk)) t"
proof -
  have C: "(1::rat) \<le> of_int (uint clk)" "(of_int (uint clk) :: rat) \<le> 2 ^ 32"
    using c1 by (simp_all only: of_int_uint_ge1 u32_rat_bounds)
  from recip_chain [of binary32 "of_int (uint clk)"] C
  obtain t where "fl_convert binary32 (fl_div binary64 (Fin 1) (fl_round binary32 (of_int (uint clk)))) = Fin t"
    "rel_err 3 (1 / of_int (uint clk)) t" by blast
  then show ?thesis using that by (simp only: timer_clock_period_def cf fl_of_u32_def)
qed

lemma fl_of_u32_word_of_int:
  assumes "0 \<le> T" "T < 2 ^ 32"
  shows "fl_of_u32 fmt (word_of_int T) = fl_round fmt (of_int T)"
  by (simp only: fl_of_u32_def uint_word_of_int_u32 [OF assms])

lemma of_int_T_range:
  assumes "1 \<le> T" "T < 2 ^ 32"
  shows "(1::rat) \<le> of_int T" "(of_int T :: rat) \<le> 2 ^ 32"
proof -
  show "(1::rat) \<le> of_int T" using assms(1) by simp
  have "(of_int T :: rat) < 2 ^ 32" using assms(2) by (rule of_int_less_pow2)
  then show "(of_int T :: rat) \<le> 2 ^ 32" by simp
qed

lemma fl_of_u32_rel:
  assumes "1 \<le> T" "T < 2 ^ 32"
  obtains t where "fl_of_u32 binary32 (word_of_int T) = Fin t" "rel_err 1 (of_int T) t"
proof -
  note T = of_int_T_range [OF assms]
  have Tp: "(0::rat) < of_int T" using T by linarith
  have Tr: "1 / 2 ^ 64 \<le> (of_int T :: rat)" "(of_int T :: rat) \<le> 2 ^ 64" using T by simp_all
  have "\<exists>t. fl_round binary32 (of_int T) = Fin t \<and> rel_err 1 (of_int T) t"
    by (rule rel_err_round32 [OF rel_err_refl [OF Tp] _ _ range_100 [OF Tr]]) simp_all
  then show ?thesis using that fl_of_u32_word_of_int [of T binary32] assms by auto
qed

lemma GetParams_freq_value:
  fixes clk :: u32
  assumes cf: "clock_frequency d = fl_of_u32 binary32 clk" and c1: "1 \<le> uint clk"
    and T: "1 \<le> T0" "T0 < 2 ^ 32"
  obtains x where "GetParams_freq tg d (word_of_int T0) = word_of_int (lroundf tg (Fin x))"
    "rel_err 8 (of_int (uint clk) / (of_int T0 + 2)) x"
proof -
  define C :: rat where "C = of_int (uint clk)"
  define R :: rat where "R = of_int T0"
  have C: "1 \<le> C" "C \<le> 2 ^ 32"
    unfolding C_def using c1 by (simp_all only: of_int_uint_ge1 u32_rat_bounds)
  have R: "1 \<le> R" "R \<le> 2 ^ 32" unfolding R_def using of_int_T_range [OF T] by simp_all
  obtain t where t: "timer_clock_period d = Fin t" "rel_err 3 (1 / C) t"
    using timer_clock_period_rel [OF cf c1] unfolding C_def by blast
  obtain t0 where t0: "fl_of_u32 binary32 (word_of_int T0) = Fin t0" "rel_err 1 R t0"
    using fl_of_u32_rel [OF T] unfolding R_def by blast
  have r1: "rel_err 1 (R + 2) (t0 + 2)" using t0(2) by (rule rel_err_add_const) simp
  have ar: "1 / 2 ^ 64 \<le> R + 2" "R + 2 \<le> 2 ^ 64" using R by simp_all
  have "\<exists>a. fl_round binary32 (t0 + 2) = Fin a \<and> rel_err 2 (R + 2) a"
    by (rule rel_err_round32 [OF r1 _ _ range_100 [OF ar]]) simp_all
  then obtain a where a: "fl_round binary32 (t0 + 2) = Fin a" "rel_err 2 (R + 2) a" by blast
  have r5: "rel_err 5 ((R + 2) * (1 / C)) (a * t)"
    using rel_err_mult [OF a(2) t(2)] by simp
  have Cpos: "0 < C" using C by linarith
  have pr: "1 / 2 ^ 64 \<le> (R + 2) * (1 / C)" "(R + 2) * (1 / C) \<le> 2 ^ 64"
  proof -
    have i: "1 / 2 ^ 32 \<le> 1 / C" "1 / C \<le> 1" using C Cpos by (simp_all add: field_simps)
    have "1 * (1 / 2 ^ 32) \<le> (R + 2) * (1 / C)" using i R Cpos by (intro mult_mono) simp_all
    moreover have "(1::rat) / 2 ^ 64 \<le> 1 * (1 / 2 ^ 32)" by simp
    ultimately show "1 / 2 ^ 64 \<le> (R + 2) * (1 / C)" by (rule order_trans [rotated])
    have "(R + 2) * (1 / C) \<le> (2 ^ 32 + 2) * 1" using i R Cpos by (intro mult_mono) simp_all
    moreover have "((2::rat) ^ 32 + 2) * 1 \<le> 2 ^ 64" by simp
    ultimately show "(R + 2) * (1 / C) \<le> 2 ^ 64" by (rule order_trans)
  qed
  have "\<exists>P. fl_round binary32 (a * t) = Fin P \<and> rel_err 6 ((R + 2) * (1 / C)) P"
    by (rule rel_err_round32 [OF r5 _ _ range_100 [OF pr]]) simp_all
  then obtain P where P: "fl_round binary32 (a * t) = Fin P" "rel_err 6 ((R + 2) * (1 / C)) P"
    by blast
  have Ppos: "0 < P" using P(2) by (rule rel_err_pos)
  have inv: "1 / ((R + 2) * (1 / C)) = C / (R + 2)" using C R by simp
  have "rel_err 6 (1 / ((R + 2) * (1 / C))) (1 / P)" using P(2) by (rule rel_err_inverse)
  then have r6: "rel_err 6 (C / (R + 2)) (1 / P)" by (simp only: inv)
  have xr: "1 / 2 ^ 64 \<le> C / (R + 2)" "C / (R + 2) \<le> 2 ^ 64"
  proof -
    have "1 / (2 ^ 32 + 2) \<le> 1 / (R + 2)" using R by (intro divide_left_mono) simp_all
    also have "1 / (R + 2) \<le> C / (R + 2)" using C R by (intro divide_right_mono) simp_all
    finally have "1 / (2 ^ 32 + 2) \<le> C / (R + 2)" .
    moreover have "(1::rat) / 2 ^ 64 \<le> 1 / (2 ^ 32 + 2)" by simp
    ultimately show "1 / 2 ^ 64 \<le> C / (R + 2)" by (rule order_trans [rotated])
    have "C / (R + 2) \<le> C / 1" using C R Cpos by (intro divide_left_mono) simp_all
    then show "C / (R + 2) \<le> 2 ^ 64" using C by simp
  qed
  have "\<exists>y. fl_round binary64 (1 / P) = Fin y \<and> rel_err 7 (C / (R + 2)) y"
    by (rule rel_err_round64 [OF r6 _ _ range_100 [OF xr]]) simp_all
  then obtain y where y: "fl_round binary64 (1 / P) = Fin y" "rel_err 7 (C / (R + 2)) y" by blast
  have "\<exists>x. fl_round binary32 y = Fin x \<and> rel_err 8 (C / (R + 2)) x"
    by (rule rel_err_round32 [OF y(2) _ _ range_100 [OF xr]]) simp_all
  then obtain x where x: "fl_round binary32 y = Fin x" "rel_err 8 (C / (R + 2)) x" by blast
  have "GetParams_pwm_period d (word_of_int T0) = Fin P"
    using t0(1) a(1) t(1) P(1) by (simp add: GetParams_pwm_period_def)
  then have "GetParams_freq tg d (word_of_int T0) = word_of_int (lroundf tg (Fin x))"
    using Ppos y(1) x(1) by (simp add: GetParams_freq_def fl_convert_def)
  then show ?thesis using x(2) that unfolding C_def R_def by blast
qed

lemma lroundf_zero: "lroundf tg (Fin 0) = 0"
  by (simp add: lroundf_def round_half_away_def floor_rat_one_divide_numeral)

lemma GetParams_dutyfactor_zero:
  assumes T: "1 \<le> T0" "T0 < 2 ^ 32"
  shows "GetParams_dutyfactor tg (word_of_int T0) 0 = 0"
proof -
  obtain t0 where t0: "fl_of_u32 binary32 (word_of_int T0) = Fin t0" "rel_err 1 (of_int T0) t0"
    using fl_of_u32_rel [OF T] by blast
  have "0 < t0" using t0(2) by (rule rel_err_pos)
  then have "GetParams_pwm_dc (word_of_int T0) 0 = Fin 0"
    using t0(1) by (simp add: GetParams_pwm_dc_def)
  then show ?thesis by (simp add: GetParams_dutyfactor_def fl_convert_def lroundf_zero)
qed

lemma GetParams_dutyfactor_value:
  assumes T0: "1 \<le> T0" "T0 < 2 ^ 32" and T1: "1 \<le> T1" "T1 < 2 ^ 32"
  obtains e where
    "GetParams_dutyfactor tg (word_of_int T0) (word_of_int T1) = word_of_int (lroundf tg (Fin e))"
    "rel_err 5 (of_int T1 / of_int T0 * 100) e"
proof -
  define R0 :: rat where "R0 = of_int T0"
  define R1 :: rat where "R1 = of_int T1"
  have R0: "1 \<le> R0" "R0 \<le> 2 ^ 32" unfolding R0_def using of_int_T_range [OF T0] by simp_all
  have R1: "1 \<le> R1" "R1 \<le> 2 ^ 32" unfolding R1_def using of_int_T_range [OF T1] by simp_all
  have pos: "0 < R0" "0 < R1" using R0 R1 by linarith+
  obtain t0 where t0: "fl_of_u32 binary32 (word_of_int T0) = Fin t0" "rel_err 1 R0 t0"
    using fl_of_u32_rel [OF T0] unfolding R0_def by blast
  obtain t1 where t1: "fl_of_u32 binary32 (word_of_int T1) = Fin t1" "rel_err 1 R1 t1"
    using fl_of_u32_rel [OF T1] unfolding R1_def by blast
  have t0pos: "0 < t0" using t0(2) by (rule rel_err_pos)
  have r2: "rel_err 2 (R1 / R0) (t1 / t0)"
    using rel_err_div [OF t1(2) t0(2)] by (simp add: numeral_2_eq_2)
  have qb: "1 / 2 ^ 32 \<le> R1 / R0" "R1 / R0 \<le> 2 ^ 32"
  proof -
    have "1 / 2 ^ 32 \<le> 1 / R0" using R0 pos by (simp add: field_simps)
    also have "1 / R0 \<le> R1 / R0" using R1 pos by (intro divide_right_mono) simp_all
    finally show "1 / 2 ^ 32 \<le> R1 / R0" .
    have "R1 / R0 \<le> R1 / 1" using R0 R1 pos by (intro divide_left_mono) simp_all
    then show "R1 / R0 \<le> 2 ^ 32" using R1 by simp
  qed
  have qr: "1 / 2 ^ 64 \<le> R1 / R0" "R1 / R0 \<le> 2 ^ 64"
  proof -
    have "(1::rat) / 2 ^ 64 \<le> 1 / 2 ^ 32" by simp
    then show "1 / 2 ^ 64 \<le> R1 / R0" using qb(1) by (rule order_trans)
    have "(2::rat) ^ 32 \<le> 2 ^ 64" by simp
    with qb(2) show "R1 / R0 \<le> 2 ^ 64" by (rule order_trans)
  qed
  have "\<exists>g. fl_round binary32 (t1 / t0) = Fin g \<and> rel_err 3 (R1 / R0) g"
    by (rule rel_err_round32 [OF r2 _ _ range_100 [OF qr]]) simp_all
  then obtain g where g: "fl_round binary32 (t1 / t0) = Fin g" "rel_err 3 (R1 / R0) g" by blast
  have r3: "rel_err 3 (R1 / R0 * 100) (g * 100)"
    using rel_err_mult [OF g(2) rel_err_refl [of 100]] by simp
  have er: "1 / 2 ^ 64 \<le> R1 / R0 * 100" "R1 / R0 * 100 \<le> 2 ^ 64"
  proof -
    have "0 \<le> R1 / R0" using pos by simp
    then have "R1 / R0 * 1 \<le> R1 / R0 * 100" by (intro mult_left_mono) simp_all
    with qb(1) have "1 / 2 ^ 32 * 1 \<le> R1 / R0 * 100" by linarith
    moreover have "(1::rat) / 2 ^ 64 \<le> 1 / 2 ^ 32 * 1" by simp
    ultimately show "1 / 2 ^ 64 \<le> R1 / R0 * 100" by (rule order_trans [rotated])
    have "R1 / R0 * 100 \<le> 2 ^ 32 * 100" using qb(2) by (intro mult_right_mono) simp_all
    moreover have "(2::rat) ^ 32 * 100 \<le> 2 ^ 64" by simp
    ultimately show "R1 / R0 * 100 \<le> 2 ^ 64" by (rule order_trans)
  qed
  have "\<exists>y. fl_round binary64 (g * 100) = Fin y \<and> rel_err 4 (R1 / R0 * 100) y"
    by (rule rel_err_round64 [OF r3 _ _ range_100 [OF er]]) simp_all
  then obtain y where y: "fl_round binary64 (g * 100) = Fin y" "rel_err 4 (R1 / R0 * 100) y"
    by blast
  have "\<exists>e. fl_round binary32 y = Fin e \<and> rel_err 5 (R1 / R0 * 100) e"
    by (rule rel_err_round32 [OF y(2) _ _ range_100 [OF er]]) simp_all
  then obtain e where e: "fl_round binary32 y = Fin e" "rel_err 5 (R1 / R0 * 100) e" by blast
  have "GetParams_pwm_dc (word_of_int T0) (word_of_int T1) = Fin g"
    using t0(1) t1(1) g(1) t0pos by (simp add: GetParams_pwm_dc_def)
  then have "GetParams_dutyfactor tg (word_of_int T0) (word_of_int T1) =
      word_of_int (lroundf tg (Fin e))"
    using y(1) e(1) by (simp add: GetParams_dutyfactor_def fl_convert_def)
  then show ?thesis using e(2) that unfolding R0_def R1_def by blast
qed

lemma lroundf_window:
  assumes x: "of_int f - 3 / 2 \<le> x" "x < of_int f + 3 / 2" "0 \<le> x"
    and f: "0 \<le> f" "f \<le> 2 ^ 30"
  shows "\<bar>uint (word_of_int (lroundf tg (Fin x)) :: u32) - f\<bar> \<le> 1"
proof -
  define n where "n = round_half_away x"
  have n: "f - 1 \<le> n" "n \<le> f + 1" unfolding n_def using round_half_away_window [OF x] by simp_all
  have n0: "0 \<le> n" using x(3) by (simp add: n_def round_half_away_def)
  have n31: "n < 2 ^ 31" using n(2) f(2) by simp
  have "lroundf tg (Fin x) = n" using n0 n31 by (simp add: lroundf_def n_def [symmetric])
  moreover have "uint (word_of_int n :: u32) = n"
    using n0 n31 by (intro uint_word_of_int_u32) simp_all
  ultimately show ?thesis using n by simp
qed

lemma freq_le_46340:
  fixes f c :: int
  assumes "f * f \<le> c" "c < 2 ^ 31" "0 \<le> f"
  shows "f \<le> 46340"
proof (rule ccontr)
  assume "\<not> f \<le> 46340"
  then have "46341 \<le> f" by simp
  then have "46341 * 46341 \<le> f * f" by (intro mult_mono) simp_all
  with assms show False by simp
qed

lemma pwm_reset_init: "fst (PWM_Initialize True pwm_reset False clk) = XST_SUCCESS"
  by (simp add: PWM_Initialize_def XTmrCtr_Initialize_def Let_def split_beta pwm_reset_def
      XTmrCtr_ReadReg_def XTC_CSR_ENABLE_TMR_MASK_def)

text \<open>
  C2. Setting the parameters and reading them back. For every clock frequency below
  \<open>2 ^ 31\<close> Hz given to \<open>PWM_Initialize\<close>, every frequency \<open>freq\<close> of at least 1 Hz with
  \<open>freq * freq \<le> clock\<close> and \<open>256 * freq \<le> clock\<close>, and every duty cycle from 0 to 100,
  \<open>PWM_SetParams\<close> succeeds on a ready instance and \<open>PWM_GetParams\<close> on the state it leaves
  succeeds and returns a frequency within 1 Hz and a duty cycle within 1 percentage point
  of the ones set, whatever the target does in the cases C leaves open. The period count
  is \<open>clock / freq - 2\<close> cut to an integer, so the frequency read back is off by about
  \<open>freq * freq / clock\<close> and the duty cycle by about \<open>100 * freq / clock\<close> points: the
  bound \<open>freq \<le> clock / 4\<close> alone does not give the round trip.
\<close>

theorem SetParams_GetParams_roundtrip:
  fixes clk freq duty :: u32
  shows "IsReady d = XIL_COMPONENT_IS_READY \<and> clock_frequency d = fl_of_u32 binary32 clk \<and>
     1 \<le> uint freq \<and> uint freq * uint freq \<le> uint clk \<and> 256 * uint freq \<le> uint clk \<and>
     uint clk < 2 ^ 31 \<and> uint duty \<le> 100 \<longrightarrow>
     fst (PWM_SetParams tg d freq duty) = XST_SUCCESS \<and>
     fst (PWM_GetParams tg (snd (PWM_SetParams tg d freq duty))) = XST_SUCCESS \<and>
     (\<exists>freq' duty'.
        snd (snd (PWM_GetParams tg (snd (PWM_SetParams tg d freq duty)))) = Some (freq', duty') \<and>
        \<bar>uint freq' - uint freq\<bar> \<le> 1 \<and> \<bar>uint duty' - uint duty\<bar> \<le> 1)"
proof (intro impI, elim conjE)
  assume rdy: "IsReady d = XIL_COMPONENT_IS_READY"
    and cf: "clock_frequency d = fl_of_u32 binary32 clk"
    and f1: "1 \<le> uint freq" and sq: "uint freq * uint freq \<le> uint clk"
    and n: "256 * uint freq \<le> uint clk" and c31: "uint clk < 2 ^ 31"
    and d100: "uint duty \<le> 100"
  define C :: rat where "C = of_int (uint clk)"
  define F :: rat where "F = of_int (uint freq)"
  define D :: rat where "D = of_int (uint duty)"
  define N where "N = C / F"
  define d1 where "d1 = snd (PWM_SetParams tg d freq duty)"
  obtain T0 T1 where s:
    "fst (PWM_SetParams tg d freq duty) = XST_SUCCESS"
    "TLR0 d1 = word_of_int T0" "TLR1 d1 = word_of_int T1"
    "0 \<le> T0" "T0 < 2 ^ 32" "0 \<le> T1" "T1 < 2 ^ 32"
    "N * (1 - 1 / 2 ^ 18) - 3 < of_int T0" "of_int T0 \<le> N * (1 + 1 / 2 ^ 18) - 2"
    "(uint duty = 0 \<and> T1 = 0) \<or>
     (1 \<le> uint duty \<and> N * D / 100 * (1 - 1 / 2 ^ 18) - 3 < of_int T1 \<and>
      of_int T1 \<le> N * D / 100 * (1 + 1 / 2 ^ 18) - 2)"
    using SetParams_registers [OF rdy cf f1 n c31 d100, of tg]
    unfolding N_def C_def F_def D_def d1_def by blast
  note h = of_int_u32_hyps [OF f1 n c31, folded C_def F_def]
  have Fpos: "0 < F" using h(1) by linarith
  have N256: "256 \<le> N" unfolding N_def using h(2) Fpos by (simp add: pos_le_divide_eq)
  have CFN: "C = F * N" unfolding N_def using Fpos by simp
  have FN: "F \<le> N"
  proof -
    have "(of_int (uint freq * uint freq) :: rat) \<le> of_int (uint clk)"
      using sq by (simp only: of_int_le_iff)
    then have "F * F \<le> C" by (simp only: of_int_mult F_def C_def)
    then show ?thesis unfolding N_def using Fpos by (simp add: pos_le_divide_eq)
  qed
  have f46: "uint freq \<le> 46340" using sq c31 f1 by (intro freq_le_46340 [of _ "uint clk"]) simp_all
  then have F46: "F \<le> 46340"
    unfolding F_def by (simp only: of_int_le_iff [symmetric, where 'a = rat] of_int_numeral)
  have T0ge: "1 \<le> T0"
  proof -
    have "(0::rat) < of_int T0" using s(8) N256 by (simp add: algebra_simps)
    then show ?thesis by simp
  qed
  have c1: "1 \<le> uint clk" using f1 n by linarith
  note ss = PWM_SetParams_success [OF rdy s(1), folded d1_def]
  have rdy1: "IsReady d1 = XIL_COMPONENT_IS_READY" using ss(5) rdy by simp
  have cf1: "clock_frequency d1 = fl_of_u32 binary32 clk" using ss(6) cf by simp
  note g = PWM_GetParams_ready [OF rdy1, of tg]
  \<comment> \<open>the frequency\<close>
  obtain x where x: "GetParams_freq tg d1 (word_of_int T0) = word_of_int (lroundf tg (Fin x))"
    "rel_err 8 (C / (of_int T0 + 2)) x"
    using GetParams_freq_value [OF cf1 c1 T0ge s(5), of tg] unfolding C_def by blast
  note xb = rel_err_bounds [OF x(2), unfolded CFN]
  have xpos: "0 \<le> x" using rel_err_pos [OF x(2)] by simp
  have xw: "F - 3 / 2 \<le> x" "x < F + 3 / 2"
    using freq_window [OF h(1) FN F46 N256 s(8,9)] xb by simp_all
  have fr: "\<bar>uint (GetParams_freq tg d1 (TLR0 d1)) - uint freq\<bar> \<le> 1"
    unfolding s(2) x(1)
    using xw xpos f1 f46 unfolding F_def by (intro lroundf_window) simp_all
  \<comment> \<open>the duty factor\<close>
  have du: "\<bar>uint (GetParams_dutyfactor tg (TLR0 d1) (TLR1 d1)) - uint duty\<bar> \<le> 1"
  proof (cases "T1 = 0")
    case True
    have z: "GetParams_dutyfactor tg (TLR0 d1) (TLR1 d1) = 0"
      unfolding s(2) s(3) True using GetParams_dutyfactor_zero [OF T0ge s(5)] by simp
    have "uint duty \<le> 1"
    proof (rule ccontr)
      assume "\<not> uint duty \<le> 1"
      then have d2: "2 \<le> uint duty" by simp
      then have D2: "2 \<le> D"
        unfolding D_def by (simp only: of_int_le_iff [symmetric, where 'a = rat] of_int_numeral)
      have "256 * 2 \<le> N * D" using N256 D2 by (intro mult_mono) simp_all
      then have "0 < N * D / 100 * (1 - 1 / 2 ^ 18) - 3" by (simp add: algebra_simps)
      with s(10) d2 True show False by simp
    qed
    then show ?thesis using z uint_ge_0 [of duty] by simp
  next
    case False
    with s(6) have T1ge: "1 \<le> T1" by simp
    from False s(10) have d1': "1 \<le> uint duty"
      and T1b: "N * D / 100 * (1 - 1 / 2 ^ 18) - 3 < of_int T1"
        "of_int T1 \<le> N * D / 100 * (1 + 1 / 2 ^ 18) - 2" by auto
    have D1: "1 \<le> D" "D \<le> 100" unfolding D_def
      using d1' d100 by (simp_all only: of_int_le_iff [symmetric, where 'a = rat] of_int_1 of_int_numeral)
    obtain e where e:
      "GetParams_dutyfactor tg (word_of_int T0) (word_of_int T1) = word_of_int (lroundf tg (Fin e))"
      "rel_err 5 (of_int T1 / of_int T0 * 100) e"
      using GetParams_dutyfactor_value [OF T0ge s(5) T1ge s(7), of tg] by blast
    note eb = rel_err_bounds [OF e(2)]
    have epos: "0 \<le> e" using rel_err_pos [OF e(2)] by simp
    have T1pos: "(0::rat) \<le> of_int T1" using s(6) by simp
    have ew: "D - 3 / 2 \<le> e" "e < D + 3 / 2"
      using duty_window [OF D1 N256 s(8,9) T1b T1pos] eb by simp_all
    show ?thesis
      unfolding s(2) s(3) e(1)
      using ew epos d1' d100 unfolding D_def by (intro lroundf_window) simp_all
  qed
  show "fst (PWM_SetParams tg d freq duty) = XST_SUCCESS \<and>
     fst (PWM_GetParams tg (snd (PWM_SetParams tg d freq duty))) = XST_SUCCESS \<and>
     (\<exists>freq' duty'.
        snd (snd (PWM_GetParams tg (snd (PWM_SetParams tg d freq duty)))) = Some (freq', duty') \<and>
        \<bar>uint freq' - uint freq\<bar> \<le> 1 \<and> \<bar>uint duty' - uint duty\<bar> \<le> 1)"
    using s(1) g fr du unfolding d1_def by blast
qed

theorem SetParams_GetParams_roundtrip_witness:
  "\<forall>tg. IsReady pwm_100MHz = XIL_COMPONENT_IS_READY \<and>
     clock_frequency pwm_100MHz = fl_of_u32 binary32 100000000 \<and>
     (1::int) \<le> uint (50 :: u32) \<and> uint (50 :: u32) * uint (50 :: u32) \<le> uint (100000000 :: u32) \<and>
     256 * uint (50 :: u32) \<le> uint (100000000 :: u32) \<and> uint (100000000 :: u32) < 2 ^ 31 \<and>
     uint (7 :: u32) \<le> 100 \<and>
     fst (PWM_SetParams tg pwm_100MHz 50 7) = XST_SUCCESS \<and>
     fst (PWM_GetParams tg (snd (PWM_SetParams tg pwm_100MHz 50 7))) = XST_SUCCESS \<and>
     (\<exists>freq' duty'.
        snd (snd (PWM_GetParams tg (snd (PWM_SetParams tg pwm_100MHz 50 7)))) = Some (freq', duty') \<and>
        \<bar>uint freq' - uint (50 :: u32)\<bar> \<le> 1 \<and> \<bar>uint duty' - uint (7 :: u32)\<bar> \<le> 1)"
  (is "\<forall>tg. ?P tg")
proof
  fix tg
  have i: "IsReady pwm_100MHz = XIL_COMPONENT_IS_READY"
    "clock_frequency pwm_100MHz = fl_of_u32 binary32 100000000"
    unfolding pwm_100MHz_def by (rule PWM_Initialize_success [OF pwm_reset_init])+
  have h: "(1::int) \<le> uint (50 :: u32) \<and> uint (50 :: u32) * uint (50 :: u32) \<le> uint (100000000 :: u32) \<and>
     256 * uint (50 :: u32) \<le> uint (100000000 :: u32) \<and> uint (100000000 :: u32) < 2 ^ 31 \<and>
     uint (7 :: u32) \<le> 100"
    by simp
  from SetParams_GetParams_roundtrip [of pwm_100MHz 100000000 50 7 tg] i h
  show "?P tg" by blast
qed

section \<open>The round trip outside its bounds\<close>

text \<open>
  A rounding that is not exact is evaluated from its binade: for \<open>pow2 e \<le> x < pow2 (e + 1)\<close>
  the result is the significand \<open>x / pow2 (e - p + 1)\<close>, rounded to an integer, times that
  quantum.
\<close>

lemma fl_round_cert:
  assumes "pow2 e \<le> x" "x < pow2 (e + 1)" "emin fmt \<le> e"
    and "round_half_even (x / pow2 (e - int (precision fmt) + 1)) = m"
    and "of_int m * pow2 (e - int (precision fmt) + 1) < pow2 (emax fmt + 1)"
  shows "fl_round fmt x = Fin (of_int m * pow2 (e - int (precision fmt) + 1))"
proof -
  have x: "0 < x" using assms(1) pow2_pos [of e] by linarith
  then have a: "\<bar>x\<bar> = x" "x \<noteq> 0" "sgn x = 1" by simp_all
  have i: "ilog2 x = e" using assms(1,2) by (rule ilog2_unique)
  have m: "max e (emin fmt) = e" using assms(3) by simp
  show ?thesis
    using assms(4,5) by (simp add: fl_round_def Let_def a i m)
qed

lemma round_half_even_of_int_div:
  fixes A B :: int
  assumes B: "0 < B"
  shows "round_half_even (of_int A / of_int B) =
    (let f = A div B; r = A mod B
     in if 2 * r < B then f else if B < 2 * r then f + 1 else if even f then f else f + 1)"
proof -
  have fl: "\<lfloor>(of_int A :: rat) / of_int B\<rfloor> = A div B" by (rule floor_divide_of_int_eq)
  have "(of_int A :: rat) = of_int (A div B * B + A mod B)" by simp
  also have "\<dots> = of_int (A div B) * of_int B + of_int (A mod B)"
    by (simp only: of_int_add of_int_mult)
  finally have r: "(of_int A :: rat) / of_int B - of_int (A div B) = of_int (A mod B) / of_int B"
    using B by (simp add: field_simps)
  have lt: "(of_int (A mod B) / of_int B < (1 / 2 :: rat)) = (2 * (A mod B) < B)"
  proof -
    have "(of_int (A mod B) / of_int B < (1 / 2 :: rat)) = ((of_int (2 * (A mod B)) :: rat) < of_int B)"
      using B by (simp add: field_simps)
    also have "\<dots> = (2 * (A mod B) < B)" by (rule of_int_less_iff)
    finally show ?thesis .
  qed
  have gt: "((1 / 2 :: rat) < of_int (A mod B) / of_int B) = (B < 2 * (A mod B))"
  proof -
    have "((1 / 2 :: rat) < of_int (A mod B) / of_int B) = ((of_int B :: rat) < of_int (2 * (A mod B)))"
      using B by (simp add: field_simps)
    also have "\<dots> = (B < 2 * (A mod B))" by (rule of_int_less_iff)
    finally show ?thesis .
  qed
  show ?thesis unfolding round_half_even_def Let_def fl r lt gt ..
qed

lemma round_half_even_numeral:
  "round_half_even (numeral a / numeral b) =
    (let f = numeral a div numeral b; r = (numeral a :: int) mod numeral b
     in if 2 * r < numeral b then f else if numeral b < 2 * r then f + 1
        else if even f then f else f + 1)"
proof -
  have "round_half_even (of_int (numeral a) / of_int (numeral b)) =
    (let f = numeral a div numeral b; r = (numeral a :: int) mod numeral b
     in if 2 * r < numeral b then f else if numeral b < 2 * r then f + 1
        else if even f then f else f + 1)"
    by (rule round_half_even_of_int_div) simp
  then show ?thesis unfolding of_int_numeral .
qed

lemma fl_round_200_values:
  "fl_round binary64 200 = Fin 200"
  "fl_round binary64 (1 / 200) = Fin (5764607523034235 / 1152921504606846976)"
  "fl_round binary32 (5764607523034235 / 1152921504606846976) = Fin (5368709 / 1073741824)"
  "fl_round binary32 (5368709 / 1048576) = Fin (5368709 / 1048576)"
  "fl_round binary32 (3271557 / 1048576) = Fin (3271557 / 1048576)"
  "fl_round binary32 (5368709 / 2147483648) = Fin (5368709 / 2147483648)"
  "fl_round binary32 (5368709 / 2097152) = Fin (5368709 / 2097152)"
  "fl_round binary32 (1174405 / 2097152) = Fin (1174405 / 2097152)"
  "fl_round binary32 3 = Fin 3"
  "fl_round binary32 5 = Fin 5"
  "fl_round binary32 (5 / 1024) = Fin (5 / 1024)"
  "fl_round binary64 (1024 / 5) = Fin (3602879701896397 / 17592186044416)"
  "fl_round binary32 (3602879701896397 / 17592186044416) = Fin (13421773 / 65536)"
  using fl_round_binary64_exact [of 200 200 0]
    fl_round_cert [where fmt = binary64 and e = "- 8" and x = "1 / 200" and m = 5764607523034235]
    fl_round_cert [where fmt = binary32 and e = "- 8"
      and x = "5764607523034235 / 1152921504606846976" and m = 10737418]
    fl_round_binary32_exact [of "5368709 / 1048576" 5368709 "- 20"]
    fl_round_binary32_exact [of "3271557 / 1048576" 3271557 "- 20"]
    fl_round_binary32_exact [of "5368709 / 2147483648" 5368709 "- 31"]
    fl_round_binary32_exact [of "5368709 / 2097152" 5368709 "- 21"]
    fl_round_binary32_exact [of "1174405 / 2097152" 1174405 "- 21"]
    fl_round_binary32_exact [of 3 3 0] fl_round_binary32_exact [of 5 5 0]
    fl_round_binary32_exact [of "5 / 1024" 5 "- 10"]
    fl_round_cert [where fmt = binary64 and e = 7 and x = "1024 / 5" and m = 7205759403792794]
    fl_round_cert [where fmt = binary32 and e = 7
      and x = "3602879701896397 / 17592186044416" and m = 13421773]
  by (simp_all add: binary32_def binary64_def pow2_def round_half_even_numeral Let_def)

lemma SetParams_1024_200_50:
  assumes "clock_frequency d = Fin 1024"
  shows "SetParams_tlr0 d 200 = Fin (3271557 / 1048576)"
    "SetParams_tlr1 d 200 50 = Fin (1174405 / 2097152)"
  using assms
  by (simp_all add: SetParams_tlr0_def SetParams_tlr1_def SetParams_tlr1_raw_def
      SetParams_pwm_period_def SetParams_pwm_dc_def timer_clock_period_1024 fl_eval
      fl_round_200_values)

lemma u32_of_fl_1024_200_50:
  "u32_of_fl tg (Fin (3271557 / 1048576)) = 3" "u32_of_fl tg (Fin (1174405 / 2097152)) = 0"
  by (simp_all add: u32_of_fl_def floor_rat_divide_numeral)

lemma GetParams_1024_3_0:
  assumes "clock_frequency d = Fin 1024"
  shows "GetParams_freq tg d 3 = 205" "GetParams_dutyfactor tg 3 0 = 0"
  using assms
  by (simp_all add: GetParams_freq_def GetParams_dutyfactor_def GetParams_pwm_period_def
      GetParams_pwm_dc_def timer_clock_period_1024 fl_eval lroundf_def round_half_away_def
      floor_rat_divide_numeral floor_rat_one_divide_numeral fl_round_200_values)

lemma pwm_1024_ready:
  "IsReady pwm_1024 = XIL_COMPONENT_IS_READY" "clock_frequency pwm_1024 = fl_of_u32 binary32 1024"
  "clock_frequency pwm_1024 = Fin 1024"
proof -
  show i: "IsReady pwm_1024 = XIL_COMPONENT_IS_READY"
    "clock_frequency pwm_1024 = fl_of_u32 binary32 1024"
    unfolding pwm_1024_def by (rule PWM_Initialize_success [OF pwm_reset_init])+
  then show "clock_frequency pwm_1024 = Fin 1024"
    by (simp add: fl_of_u32_def fl_eval)
qed

text \<open>
  At a clock of 1024 Hz, a frequency of 200 Hz (below a quarter of the clock) and a duty
  cycle of 50: \<open>1024 / 200 = 5.12\<close>, the period count is \<open>3.12\<close> as a \<open>float\<close> and 3 in the
  register; the duty count is \<open>2.56 - 2 = 0.56\<close> and 0 in the register. \<open>PWM_GetParams\<close>
  returns \<open>1024 / 5 = 204.8\<close> rounded, 205 Hz, and a duty cycle of 0: neither the frequency
  nor the duty cycle is within 1 of the one set.
\<close>

theorem SetParams_GetParams_roundtrip_fails:
  "IsReady pwm_1024 = XIL_COMPONENT_IS_READY \<and>
   clock_frequency pwm_1024 = fl_of_u32 binary32 1024 \<and>
   (1::int) \<le> uint (200 :: u32) \<and> uint (200 :: u32) \<le> uint (1024 :: u32) div 4 \<and>
   uint (50 :: u32) \<le> 100 \<and>
   fst (PWM_SetParams target_zero pwm_1024 200 50) = XST_SUCCESS \<and>
   TLR0 (snd (PWM_SetParams target_zero pwm_1024 200 50)) = 3 \<and>
   TLR1 (snd (PWM_SetParams target_zero pwm_1024 200 50)) = 0 \<and>
   fst (PWM_GetParams target_zero (snd (PWM_SetParams target_zero pwm_1024 200 50))) = XST_SUCCESS \<and>
   snd (snd (PWM_GetParams target_zero (snd (PWM_SetParams target_zero pwm_1024 200 50)))) =
     Some (205, 0) \<and>
   \<not> \<bar>uint (205 :: u32) - uint (200 :: u32)\<bar> \<le> 1 \<and>
   \<not> \<bar>uint (0 :: u32) - uint (50 :: u32)\<bar> \<le> 1"
proof -
  define d' where "d' = snd (PWM_SetParams target_zero pwm_1024 200 50)"
  note i = pwm_1024_ready
  have s: "fst (PWM_SetParams target_zero pwm_1024 200 50) = XST_SUCCESS"
    by (simp add: PWM_SetParams_status [OF i(1)] SetParams_1024_200_50 [OF i(3)] PWM_MAXCNT_def)
  note t = PWM_SetParams_success [OF i(1) s]
  have r: "TLR0 d' = 3" "TLR1 d' = 0" "IsReady d' = XIL_COMPONENT_IS_READY"
    "clock_frequency d' = Fin 1024"
    unfolding d'_def
    by (simp_all add: t(1,2,5,6) SetParams_1024_200_50 [OF i(3)] u32_of_fl_1024_200_50 i(1,3))
  have g: "fst (PWM_GetParams target_zero d') = XST_SUCCESS"
    "snd (snd (PWM_GetParams target_zero d')) = Some (205, 0)"
    by (simp_all add: PWM_GetParams_ready [OF r(3)] r(1,2) GetParams_1024_3_0 [OF r(4)])
  have h: "(1::int) \<le> uint (200 :: u32) \<and> uint (200 :: u32) \<le> uint (1024 :: u32) div 4 \<and>
     uint (50 :: u32) \<le> 100 \<and> \<not> \<bar>uint (205 :: u32) - uint (200 :: u32)\<bar> \<le> 1 \<and>
     \<not> \<bar>uint (0 :: u32) - uint (50 :: u32)\<bar> \<le> 1"
    by simp
  from i(1,2) s r(1,2) g h show ?thesis unfolding d'_def by blast
qed

text \<open>
  The duty cycle is lost without any rounding as well. At a clock of 1024 Hz, a frequency
  of 256 Hz (a quarter of the clock) and a duty cycle of 50 the period count is
  \<open>4 - 2 = 2\<close> and the duty count \<open>2 - 2 = 0\<close>: the registers hold 2 and 0, and
  \<open>PWM_GetParams\<close> returns 256 Hz and a duty cycle of 0.
\<close>

lemma SetParams_GetParams_1024_256_50:
  "fst (PWM_SetParams tg pwm_1024 256 50) = XST_SUCCESS"
  "TLR0 (snd (PWM_SetParams tg pwm_1024 256 50)) = 2"
  "TLR1 (snd (PWM_SetParams tg pwm_1024 256 50)) = 0"
  "snd (snd (PWM_GetParams tg (snd (PWM_SetParams tg pwm_1024 256 50)))) = Some (256, 0)"
proof -
  define d' where "d' = snd (PWM_SetParams tg pwm_1024 256 50)"
  note i = pwm_1024_ready
  show s: "fst (PWM_SetParams tg pwm_1024 256 50) = XST_SUCCESS"
    by (simp add: PWM_SetParams_status [OF i(1)] SetParams_1024_256_50 [OF i(3)] PWM_MAXCNT_def)
  note t = PWM_SetParams_success [OF i(1) s]
  have r: "TLR0 d' = 2" "TLR1 d' = 0" "IsReady d' = XIL_COMPONENT_IS_READY"
    "clock_frequency d' = Fin 1024"
    unfolding d'_def
    by (simp_all add: t(1,2,5,6) SetParams_1024_256_50 [OF i(3)] u32_of_fl_values i(1,3))
  from r(1,2) show "TLR0 (snd (PWM_SetParams tg pwm_1024 256 50)) = 2"
    "TLR1 (snd (PWM_SetParams tg pwm_1024 256 50)) = 0" unfolding d'_def .
  have "snd (snd (PWM_GetParams tg d')) = Some (256, 0)"
    by (simp add: PWM_GetParams_ready [OF r(3)] r(1,2) GetParams_1024_2_0 [OF r(4)])
  then show "snd (snd (PWM_GetParams tg (snd (PWM_SetParams tg pwm_1024 256 50)))) = Some (256, 0)"
    unfolding d'_def .
qed

text \<open>
  At a clock of \<open>2 ^ 32 - 1\<close> Hz the \<open>float\<close> that holds the clock frequency is \<open>2 ^ 32\<close>,
  and for a frequency of 1 Hz the period count \<open>2 ^ 32 - 2\<close> rounds to \<open>2 ^ 32\<close> as a
  \<open>float\<close>: \<open>PWM_SetParams\<close> returns \<open>XST_INVALID_PARAM\<close>, although \<open>clock / freq - 2\<close> is
  below \<open>2 ^ 32 - 1\<close>.
\<close>

lemma fl_round_full_range_values:
  "fl_round binary32 4294967295 = Fin 4294967296"
  "fl_round binary64 (1 / 4294967296) = Fin (1 / 4294967296)"
  "fl_round binary32 (1 / 4294967296) = Fin (1 / 4294967296)"
  "fl_round binary64 1 = Fin 1"
  "fl_round binary32 4294967296 = Fin 4294967296"
  "fl_round binary32 4294967294 = Fin 4294967296"
  using fl_round_cert [where fmt = binary32 and e = 31 and x = 4294967295 and m = 16777216]
    fl_round_binary64_exact [of "1 / 4294967296" 1 "- 32"]
    fl_round_binary32_exact [of "1 / 4294967296" 1 "- 32"]
    fl_round_binary64_exact [of 1 1 0]
    fl_round_binary32_exact [of 4294967296 1 32]
    fl_round_cert [where fmt = binary32 and e = 31 and x = 4294967294 and m = 16777216]
  by (simp_all add: binary32_def pow2_def round_half_even_numeral Let_def)

lemma SetParams_full_range_clock:
  assumes "IsReady d = XIL_COMPONENT_IS_READY"
    and "clock_frequency d = fl_of_u32 binary32 4294967295"
  shows "SetParams_tlr0 d 1 = Fin 4294967296"
    "fst (PWM_SetParams tg d 1 0) = XST_INVALID_PARAM"
proof -
  have c: "clock_frequency d = Fin 4294967296"
    using assms(2) by (simp add: fl_of_u32_def fl_round_full_range_values)
  show t: "SetParams_tlr0 d 1 = Fin 4294967296"
    by (simp add: SetParams_tlr0_def SetParams_pwm_period_def timer_clock_period_def c fl_eval
        fl_round_full_range_values)
  show "fst (PWM_SetParams tg d 1 0) = XST_INVALID_PARAM"
    by (simp add: PWM_SetParams_status [OF assms(1)] t PWM_MAXCNT_def)
qed

section \<open>The status of PWM_SetParams by its inputs\<close>

text \<open>
  The two counts as \<open>PWM_SetParams\<close> computes them, within the rounding error of the exact
  quotients \<open>clock / freq\<close> and \<open>clock / freq * duty / 100\<close>.
\<close>

lemma fl_round32_near:
  assumes "\<bar>x\<bar> \<le> 2 ^ 33"
  obtains y where "fl_round binary32 x = Fin y" "\<bar>y - x\<bar> \<le> \<bar>x\<bar> / 2 ^ 24 + 1 / 2 ^ 150"
proof -
  have "(2::rat) ^ 33 \<le> pow2 127" by (simp add: pow2_def)
  with assms have "\<bar>x\<bar> \<le> pow2 (emax binary32)" by (simp add: binary32_def)
  from fl_round_general [of binary32 x, OF _ _ this]
  obtain y where "fl_round binary32 x = Fin y"
    "\<bar>y - x\<bar> \<le> \<bar>x\<bar> * pow2 (- int (precision binary32)) +
       pow2 (emin binary32 - int (precision binary32))"
    by (auto simp add: binary32_def)
  then show ?thesis using that by (simp add: binary32_def pow2_def)
qed

lemma SetParams_counts:
  fixes clk freq duty :: u32
  assumes cf: "clock_frequency d = fl_of_u32 binary32 clk"
    and c1: "1 \<le> uint clk" and f1: "1 \<le> uint freq" and d100: "uint duty \<le> 100"
  defines "N \<equiv> (of_int (uint clk) :: rat) / of_int (uint freq)"
  defines "A \<equiv> N * of_int (uint duty) / 100"
  obtains r y0 q z1 where
    "SetParams_tlr0 d freq = Fin y0" "\<bar>y0 - (r - 2)\<bar> \<le> \<bar>r - 2\<bar> / 2 ^ 24 + 1 / 2 ^ 150"
    "N * (1 - 1 / 2 ^ 19) \<le> r" "r \<le> N * (1 + 1 / 2 ^ 19)"
    "SetParams_tlr1_raw d freq duty = Fin z1" "\<bar>z1 - (q - 2)\<bar> \<le> \<bar>q - 2\<bar> / 2 ^ 24 + 1 / 2 ^ 150"
    "A * (1 - 1 / 2 ^ 19) \<le> q" "q \<le> A * (1 + 1 / 2 ^ 19)"
    "0 < N" "N \<le> 2 ^ 32" "0 \<le> A" "A \<le> N"
proof -
  define C :: rat where "C = of_int (uint clk)"
  define F :: rat where "F = of_int (uint freq)"
  define D :: rat where "D = of_int (uint duty)"
  have C: "1 \<le> C" "C \<le> 2 ^ 32" unfolding C_def
    using c1 u32_rat_bounds(1) [of clk] by (simp_all only: of_int_le_iff [symmetric, where 'a = rat] of_int_1)
  have F: "1 \<le> F" unfolding F_def
    using f1 by (simp only: of_int_le_iff [symmetric, where 'a = rat] of_int_1)
  have D: "0 \<le> D" "D \<le> 100" unfolding D_def
    using d100 u32_rat_bounds(2) [of duty]
    by (simp_all only: of_int_le_iff [symmetric, where 'a = rat] of_int_numeral)
  have N: "N = C / F" by (simp add: N_def C_def F_def)
  have A: "A = N * D / 100" by (simp add: A_def D_def)
  have Npos: "0 < N" unfolding N using C F by simp
  have Nle: "N \<le> 2 ^ 32"
  proof -
    have "C / F \<le> C / 1" using C F by (intro divide_left_mono) simp_all
    then show ?thesis unfolding N using C(2) by simp
  qed
  have A0: "0 \<le> A" unfolding A using Npos D by simp
  have AN: "A \<le> N"
  proof -
    have "N * D \<le> N * 100" using Npos D by (intro mult_left_mono) simp_all
    then show ?thesis unfolding A by simp
  qed
  obtain t r q where v:
    "timer_clock_period d = Fin t" "rel_err 3 (1 / C) t"
    "SetParams_tlr0 d freq = fl_round binary32 (r - 2)"
    "rel_err 7 N r"
    "SetParams_tlr1_raw d freq duty = fl_round binary32 (q - 2)"
    "(uint duty = 0 \<and> q = 0) \<or> (1 \<le> uint duty \<and> rel_err 11 A q)"
    using SetParams_values [OF cf c1 f1 d100]
    unfolding N_def A_def C_def by blast
  note rb = rel_err_bounds [OF v(4)]
  have rpos: "0 < r" using v(4) by (rule rel_err_pos)
  have "r \<le> 2 ^ 32 * (1 + 1 / 2 ^ 19)"
  proof -
    have "N * (1 + 1 / 2 ^ 19) \<le> 2 ^ 32 * (1 + 1 / 2 ^ 19)"
      using Nle by (intro mult_right_mono) simp_all
    with rb(2) show ?thesis by simp
  qed
  then have r33: "\<bar>r - 2\<bar> \<le> 2 ^ 33" using rpos by simp
  obtain y0 where y0: "fl_round binary32 (r - 2) = Fin y0"
    "\<bar>y0 - (r - 2)\<bar> \<le> \<bar>r - 2\<bar> / 2 ^ 24 + 1 / 2 ^ 150"
    using fl_round32_near [OF r33] by blast
  have qb: "A * (1 - 1 / 2 ^ 19) \<le> q" "q \<le> A * (1 + 1 / 2 ^ 19)"
  proof -
    show "A * (1 - 1 / 2 ^ 19) \<le> q"
    proof (cases "uint duty = 0")
      case True
      with v(6) have "q = 0" by auto
      moreover have "A = 0" using True by (simp add: A_def)
      ultimately show ?thesis by simp
    next
      case False
      with v(6) have "rel_err 11 A q" by auto
      then show ?thesis by (rule rel_err_bounds(1)) simp
    qed
    show "q \<le> A * (1 + 1 / 2 ^ 19)"
    proof (cases "uint duty = 0")
      case True
      with v(6) have "q = 0" by auto
      moreover have "A = 0" using True by (simp add: A_def)
      ultimately show ?thesis by simp
    next
      case False
      with v(6) have "rel_err 11 A q" by auto
      then show ?thesis by (rule rel_err_bounds(2)) simp
    qed
  qed
  have q0: "0 \<le> q"
  proof -
    have "0 \<le> A * (1 - 1 / 2 ^ 19)" using A0 by (intro mult_nonneg_nonneg) simp_all
    with qb(1) show ?thesis by simp
  qed
  have "q \<le> 2 ^ 32 * (1 + 1 / 2 ^ 19)"
  proof -
    have "A * (1 + 1 / 2 ^ 19) \<le> 2 ^ 32 * (1 + 1 / 2 ^ 19)"
      using AN Nle by (intro mult_right_mono) simp_all
    with qb(2) show ?thesis by simp
  qed
  then have q33: "\<bar>q - 2\<bar> \<le> 2 ^ 33" using q0 by simp
  obtain z1 where z1: "fl_round binary32 (q - 2) = Fin z1"
    "\<bar>z1 - (q - 2)\<bar> \<le> \<bar>q - 2\<bar> / 2 ^ 24 + 1 / 2 ^ 150"
    using fl_round32_near [OF q33] by blast
  show ?thesis
    using that [of y0 r z1 q] v(3,5) y0 z1 rb qb Npos Nle A0 AN by simp
qed

lemma u32_of_fl_small:
  assumes "- 1 < z" "z < 1"
  shows "u32_of_fl tg (Fin z) = 0"
proof (cases "0 \<le> z")
  case True
  with assms have "\<lfloor>z\<rfloor> = 0" by linarith
  with assms True show ?thesis by (simp add: u32_of_fl_def)
next
  case False
  with assms have "\<lceil>z\<rceil> = 0" by linarith
  moreover have "z < 2 ^ 32" using assms(2) by simp
  ultimately show ?thesis using assms False by (simp add: u32_of_fl_def)
qed

lemma of_int_u32_prod_less:
  fixes a b c :: int
  assumes "a * b < 200 * c"
  shows "(of_int a :: rat) * of_int b < 200 * of_int c"
proof -
  have "(of_int (a * b) :: rat) < of_int (200 * c)" using assms by (simp only: of_int_less_iff)
  then show ?thesis by simp
qed

lemma of_int_u32_prod_le:
  fixes a b c :: int
  assumes "k * c \<le> a * b"
  shows "(of_int k :: rat) * of_int c \<le> of_int a * of_int b"
proof -
  have "(of_int (k * c) :: rat) \<le> of_int (a * b)" using assms by (simp only: of_int_le_iff)
  then show ?thesis by simp
qed

lemma SetParams_in_range:
  fixes clk freq duty :: u32
  assumes cf: "clock_frequency d = fl_of_u32 binary32 clk"
    and c1: "1 \<le> uint clk" and cB: "uint clk \<le> 2 ^ 32 - 2 ^ 14"
    and f1: "1 \<le> uint freq" and d100: "uint duty \<le> 100"
  obtains y0 z1 where "SetParams_tlr0 d freq = Fin y0" "y0 < 2 ^ 32 - 1"
    "SetParams_tlr1_raw d freq duty = Fin z1" "z1 < 2 ^ 32 - 1"
proof -
  define N :: rat where "N = of_int (uint clk) / of_int (uint freq)"
  define A :: rat where "A = N * of_int (uint duty) / 100"
  obtain r y0 q z1 where v:
    "SetParams_tlr0 d freq = Fin y0" "\<bar>y0 - (r - 2)\<bar> \<le> \<bar>r - 2\<bar> / 2 ^ 24 + 1 / 2 ^ 150"
    "N * (1 - 1 / 2 ^ 19) \<le> r" "r \<le> N * (1 + 1 / 2 ^ 19)"
    "SetParams_tlr1_raw d freq duty = Fin z1" "\<bar>z1 - (q - 2)\<bar> \<le> \<bar>q - 2\<bar> / 2 ^ 24 + 1 / 2 ^ 150"
    "A * (1 - 1 / 2 ^ 19) \<le> q" "q \<le> A * (1 + 1 / 2 ^ 19)"
    "0 < N" "N \<le> 2 ^ 32" "0 \<le> A" "A \<le> N"
    unfolding N_def A_def by (rule SetParams_counts [OF cf c1 f1 d100])
  have C: "(of_int (uint clk) :: rat) \<le> 4294950912"
  proof -
    have "uint clk \<le> 4294950912" using cB by simp
    then have "(of_int (uint clk) :: rat) \<le> of_int 4294950912" by (simp only: of_int_le_iff)
    then show ?thesis by simp
  qed
  have F: "(1::rat) \<le> of_int (uint freq)"
    using f1 by (simp only: of_int_le_iff [symmetric, where 'a = rat] of_int_1)
  have C0: "(0::rat) \<le> of_int (uint clk)" by (rule u32_rat_bounds(2))
  have NB: "N \<le> 4294950912"
  proof -
    have "(of_int (uint clk) :: rat) / of_int (uint freq) \<le> of_int (uint clk) / 1"
      using C0 F by (intro divide_left_mono) simp_all
    with C show ?thesis unfolding N_def by simp
  qed
  have NH: "N * (1 + 1 / 2 ^ 19) \<le> 4294959104"
  proof -
    have "N * (1 + 1 / 2 ^ 19) \<le> 4294950912 * (1 + 1 / 2 ^ 19)"
      using NB by (intro mult_right_mono) simp_all
    then show ?thesis by simp
  qed
  have AH: "A * (1 + 1 / 2 ^ 19) \<le> 4294959104"
  proof -
    have "A * (1 + 1 / 2 ^ 19) \<le> N * (1 + 1 / 2 ^ 19)"
      using v(12) by (intro mult_right_mono) simp_all
    with NH show ?thesis by linarith
  qed
  have q0: "0 \<le> q"
  proof -
    have "0 \<le> A * (1 - 1 / 2 ^ 19)" using v(11) by (intro mult_nonneg_nonneg) simp_all
    with v(7) show ?thesis by simp
  qed
  have r0: "0 \<le> r"
  proof -
    have "0 \<le> N * (1 - 1 / 2 ^ 19)" using v(9) by (intro mult_nonneg_nonneg) simp_all
    with v(3) show ?thesis by simp
  qed
  have rr: "- 2 \<le> r - 2" "r - 2 \<le> 4294959102" using r0 v(4) NH by simp_all
  have qq: "- 2 \<le> q - 2" "q - 2 \<le> 4294959102" using q0 v(8) AH by simp_all
  have ra: "\<bar>r - 2\<bar> / 2 ^ 24 \<le> 256" using rr by (simp add: abs_le_iff)
  have qa: "\<bar>q - 2\<bar> / 2 ^ 24 \<le> 256" using qq by (simp add: abs_le_iff)
  have e: "(1::rat) / 2 ^ 150 \<le> 1" by simp
  have "y0 \<le> (r - 2) + (\<bar>r - 2\<bar> / 2 ^ 24 + 1 / 2 ^ 150)" using v(2) by (simp add: abs_le_iff)
  with rr ra e have y: "y0 < 2 ^ 32 - 1" by simp
  have "z1 \<le> (q - 2) + (\<bar>q - 2\<bar> / 2 ^ 24 + 1 / 2 ^ 150)" using v(6) by (simp add: abs_le_iff)
  with qq qa e have z: "z1 < 2 ^ 32 - 1" by simp
  show ?thesis using that [OF v(1) y v(5) z] .
qed

lemma SetParams_succeeds:
  fixes clk freq duty :: u32
  assumes rdy: "IsReady d = XIL_COMPONENT_IS_READY"
    and cf: "clock_frequency d = fl_of_u32 binary32 clk"
    and c1: "1 \<le> uint clk" and cB: "uint clk \<le> 2 ^ 32 - 2 ^ 14"
    and f1: "1 \<le> uint freq" and d100: "uint duty \<le> 100"
  shows "fst (PWM_SetParams tg d freq duty) = XST_SUCCESS"
proof -
  obtain y0 z1 where v: "SetParams_tlr0 d freq = Fin y0" "y0 < 2 ^ 32 - 1"
    "SetParams_tlr1_raw d freq duty = Fin z1" "z1 < 2 ^ 32 - 1"
    using SetParams_in_range [OF cf c1 cB f1 d100] by blast
  have dle: "\<not> 100 < duty" using d100 by (simp add: word_less_def)
  have ok0: "\<not> fl_less PWM_MAXCNT (SetParams_tlr0 d freq)"
    using v(2) by (simp add: v(1) PWM_MAXCNT_def)
  have ok1: "\<not> fl_less PWM_MAXCNT (SetParams_tlr1 d freq duty)"
    using v(4) by (simp add: SetParams_tlr1_def v(3) PWM_MAXCNT_def)
  show ?thesis using dle ok0 ok1 by (simp add: PWM_SetParams_status [OF rdy])
qed

lemma SetParams_duty_zero:
  fixes clk freq duty :: u32
  assumes rdy: "IsReady d = XIL_COMPONENT_IS_READY"
    and cf: "clock_frequency d = fl_of_u32 binary32 clk"
    and c1: "1 \<le> uint clk" and cB: "uint clk \<le> 2 ^ 32 - 2 ^ 14"
    and f1: "1 \<le> uint freq" and d100: "uint duty \<le> 100"
    and neg: "uint clk * uint duty < 200 * uint freq"
  shows "TLR1 (snd (PWM_SetParams tg d freq duty)) = 0"
proof -
  define C :: rat where "C = of_int (uint clk)"
  define F :: rat where "F = of_int (uint freq)"
  define D :: rat where "D = of_int (uint duty)"
  define N :: rat where "N = C / F"
  define A :: rat where "A = N * D / 100"
  obtain r y0 q z1 where v:
    "SetParams_tlr0 d freq = Fin y0" "\<bar>y0 - (r - 2)\<bar> \<le> \<bar>r - 2\<bar> / 2 ^ 24 + 1 / 2 ^ 150"
    "N * (1 - 1 / 2 ^ 19) \<le> r" "r \<le> N * (1 + 1 / 2 ^ 19)"
    "SetParams_tlr1_raw d freq duty = Fin z1" "\<bar>z1 - (q - 2)\<bar> \<le> \<bar>q - 2\<bar> / 2 ^ 24 + 1 / 2 ^ 150"
    "A * (1 - 1 / 2 ^ 19) \<le> q" "q \<le> A * (1 + 1 / 2 ^ 19)"
    "0 < N" "N \<le> 2 ^ 32" "0 \<le> A" "A \<le> N"
    unfolding A_def N_def C_def F_def D_def by (rule SetParams_counts [OF cf c1 f1 d100])
  have F: "1 \<le> F" unfolding F_def
    using f1 by (simp only: of_int_le_iff [symmetric, where 'a = rat] of_int_1)
  have CD: "C * D < 200 * F" unfolding C_def D_def F_def using neg by (rule of_int_u32_prod_less)
  have A2: "A < 2"
  proof -
    have "A = C * D / (100 * F)" by (simp add: A_def N_def)
    also have "\<dots> < 2" using CD F by (simp add: pos_divide_less_eq)
    finally show ?thesis .
  qed
  have q0: "0 \<le> q"
  proof -
    have "0 \<le> A * (1 - 1 / 2 ^ 19)" using v(11) by (intro mult_nonneg_nonneg) simp_all
    with v(7) show ?thesis by simp
  qed
  have "A * (1 + 1 / 2 ^ 19) \<le> 2 * (1 + 1 / 2 ^ 19)"
    using A2 by (intro mult_right_mono) simp_all
  with v(8) have q2: "q \<le> 2 + 1 / 2 ^ 18" by simp
  have qa: "\<bar>q - 2\<bar> \<le> 2" using q0 q2 by (simp add: abs_le_iff)
  then have "\<bar>q - 2\<bar> / 2 ^ 24 \<le> 2 / 2 ^ 24" by (simp add: divide_right_mono)
  moreover have "z1 \<le> (q - 2) + (\<bar>q - 2\<bar> / 2 ^ 24 + 1 / 2 ^ 150)" using v(6) by (simp add: abs_le_iff)
  moreover have "(1::rat) / 2 ^ 150 \<le> 1 / 2" by simp
  ultimately have z1: "z1 < 1" using q2 by simp
  have t1: "u32_of_fl tg (SetParams_tlr1 d freq duty) = 0"
  proof (cases "z1 < 0")
    case True
    then show ?thesis by (simp add: SetParams_tlr1_def v(5) u32_of_fl_values)
  next
    case False
    then have "- 1 < z1" by simp
    from u32_of_fl_small [OF this z1] False show ?thesis by (simp add: SetParams_tlr1_def v(5))
  qed
  have ok: "fst (PWM_SetParams tg d freq duty) = XST_SUCCESS"
    by (rule SetParams_succeeds [OF rdy cf c1 cB f1 d100])
  show ?thesis using PWM_SetParams_success(2) [OF rdy ok] t1 by simp
qed

lemma SetParams_duty_stored:
  fixes clk freq duty :: u32
  assumes rdy: "IsReady d = XIL_COMPONENT_IS_READY"
    and cf: "clock_frequency d = fl_of_u32 binary32 clk"
    and c1: "1 \<le> uint clk" and cB: "uint clk \<le> 2 ^ 32 - 2 ^ 14"
    and f1: "1 \<le> uint freq" and d100: "uint duty \<le> 100"
    and pos: "400 * uint freq \<le> uint clk * uint duty"
  shows "1 \<le> uint (TLR1 (snd (PWM_SetParams tg d freq duty)))"
proof -
  define C :: rat where "C = of_int (uint clk)"
  define F :: rat where "F = of_int (uint freq)"
  define D :: rat where "D = of_int (uint duty)"
  define N :: rat where "N = C / F"
  define A :: rat where "A = N * D / 100"
  obtain r y0 q z1 where v:
    "SetParams_tlr0 d freq = Fin y0" "\<bar>y0 - (r - 2)\<bar> \<le> \<bar>r - 2\<bar> / 2 ^ 24 + 1 / 2 ^ 150"
    "N * (1 - 1 / 2 ^ 19) \<le> r" "r \<le> N * (1 + 1 / 2 ^ 19)"
    "SetParams_tlr1_raw d freq duty = Fin z1" "\<bar>z1 - (q - 2)\<bar> \<le> \<bar>q - 2\<bar> / 2 ^ 24 + 1 / 2 ^ 150"
    "A * (1 - 1 / 2 ^ 19) \<le> q" "q \<le> A * (1 + 1 / 2 ^ 19)"
    "0 < N" "N \<le> 2 ^ 32" "0 \<le> A" "A \<le> N"
    unfolding A_def N_def C_def F_def D_def by (rule SetParams_counts [OF cf c1 f1 d100])
  obtain y0' z1' where w: "SetParams_tlr0 d freq = Fin y0'" "y0' < 2 ^ 32 - 1"
    "SetParams_tlr1_raw d freq duty = Fin z1'" "z1' < 2 ^ 32 - 1"
    using SetParams_in_range [OF cf c1 cB f1 d100] by blast
  have zz: "z1 < 2 ^ 32 - 1" using w(3,4) v(5) by simp
  have F: "1 \<le> F" unfolding F_def
    using f1 by (simp only: of_int_le_iff [symmetric, where 'a = rat] of_int_1)
  have CD: "400 * F \<le> C * D" unfolding C_def D_def F_def
    using of_int_u32_prod_le [of 400 "uint freq" "uint clk" "uint duty"] pos by simp
  have A4: "4 \<le> A"
  proof -
    have "4 \<le> C * D / (100 * F)" using CD F by (simp add: pos_le_divide_eq)
    also have "\<dots> = A" by (simp add: A_def N_def)
    finally show ?thesis .
  qed
  have "4 * (1 - 1 / 2 ^ 19) \<le> A * (1 - 1 / 2 ^ 19)"
    using A4 by (intro mult_right_mono) simp_all
  with v(7) have q4: "7 / 2 \<le> q" by simp
  then have qa: "\<bar>q - 2\<bar> = q - 2" by simp
  define E where "E = (q - 2) / 2 ^ 24"
  define S :: rat where "S = 1 / 2 ^ 150"
  have "\<bar>z1 - (q - 2)\<bar> \<le> E + S" using v(6) unfolding qa E_def S_def .
  then have lo: "(q - 2) - (E + S) \<le> z1" by (simp only: abs_le_iff) linarith
  have E: "4 * E \<le> q - 2" unfolding E_def using q4 by simp
  have S: "S \<le> 1 / 8" unfolding S_def by simp
  have z1: "1 \<le> z1" using lo E S q4 by linarith
  have zr: "0 \<le> z1" "z1 < 2 ^ 32" using z1 zz by simp_all
  have t1: "SetParams_tlr1 d freq duty = Fin z1" using z1 by (simp add: SetParams_tlr1_def v(5))
  have ok: "fst (PWM_SetParams tg d freq duty) = XST_SUCCESS"
    by (rule SetParams_succeeds [OF rdy cf c1 cB f1 d100])
  have reg: "TLR1 (snd (PWM_SetParams tg d freq duty)) = word_of_int \<lfloor>z1\<rfloor>"
    using PWM_SetParams_success(2) [OF rdy ok] by (simp add: t1 u32_of_fl_in_range [OF zr])
  have fl: "1 \<le> \<lfloor>z1\<rfloor>" using z1 by linarith
  have "uint (word_of_int \<lfloor>z1\<rfloor> :: u32) = \<lfloor>z1\<rfloor>"
    using floor_u32_range [OF zr] by (intro uint_word_of_int_u32) simp_all
  with fl show ?thesis unfolding reg by simp
qed

lemma SetParams_period_zero:
  fixes clk freq duty :: u32
  assumes rdy: "IsReady d = XIL_COMPONENT_IS_READY"
    and cf: "clock_frequency d = fl_of_u32 binary32 clk"
    and c1: "1 \<le> uint clk" and cB: "uint clk \<le> 2 ^ 32 - 2 ^ 14"
    and f1: "1 \<le> uint freq" and d100: "uint duty \<le> 100"
    and lo: "3 * uint freq \<le> 2 * uint clk" and hi: "uint clk < 2 * uint freq"
  shows "TLR0 (snd (PWM_SetParams tg d freq duty)) = 0"
proof -
  define C :: rat where "C = of_int (uint clk)"
  define F :: rat where "F = of_int (uint freq)"
  define N :: rat where "N = C / F"
  define A :: rat where "A = N * of_int (uint duty) / 100"
  obtain r y0 q z1 where v:
    "SetParams_tlr0 d freq = Fin y0" "\<bar>y0 - (r - 2)\<bar> \<le> \<bar>r - 2\<bar> / 2 ^ 24 + 1 / 2 ^ 150"
    "N * (1 - 1 / 2 ^ 19) \<le> r" "r \<le> N * (1 + 1 / 2 ^ 19)"
    "SetParams_tlr1_raw d freq duty = Fin z1" "\<bar>z1 - (q - 2)\<bar> \<le> \<bar>q - 2\<bar> / 2 ^ 24 + 1 / 2 ^ 150"
    "A * (1 - 1 / 2 ^ 19) \<le> q" "q \<le> A * (1 + 1 / 2 ^ 19)"
    "0 < N" "N \<le> 2 ^ 32" "0 \<le> A" "A \<le> N"
    unfolding A_def N_def C_def F_def by (rule SetParams_counts [OF cf c1 f1 d100])
  have F: "1 \<le> F" unfolding F_def
    using f1 by (simp only: of_int_le_iff [symmetric, where 'a = rat] of_int_1)
  have "(of_int (3 * uint freq) :: rat) \<le> of_int (2 * uint clk)"
    using lo by (simp only: of_int_le_iff)
  then have l: "3 * F \<le> 2 * C" by (simp add: C_def F_def)
  have "(of_int (uint clk) :: rat) < of_int (2 * uint freq)"
    using hi by (simp only: of_int_less_iff)
  then have h: "C < 2 * F" by (simp add: C_def F_def)
  have N1: "3 / 2 \<le> N" unfolding N_def using l F by (simp add: pos_le_divide_eq)
  have N2: "N < 2" unfolding N_def using h F by (simp add: pos_divide_less_eq)
  have "3 / 2 * (1 - 1 / 2 ^ 19) \<le> N * (1 - 1 / 2 ^ 19)"
    using N1 by (intro mult_right_mono) simp_all
  with v(3) have r1: "5 / 4 \<le> r" by simp
  have "N * (1 + 1 / 2 ^ 19) \<le> 2 * (1 + 1 / 2 ^ 19)"
    using N2 by (intro mult_right_mono) simp_all
  with v(4) have r2: "r \<le> 2 + 1 / 2 ^ 18" by simp
  have ra: "\<bar>r - 2\<bar> \<le> 1" using r1 r2 by (simp add: abs_le_iff)
  then have e: "\<bar>r - 2\<bar> / 2 ^ 24 \<le> 1 / 2 ^ 24" by (simp add: divide_right_mono)
  have s: "(1::rat) / 2 ^ 150 \<le> 1 / 2 ^ 24" by simp
  have b: "y0 \<le> (r - 2) + (\<bar>r - 2\<bar> / 2 ^ 24 + 1 / 2 ^ 150)"
    "(r - 2) - (\<bar>r - 2\<bar> / 2 ^ 24 + 1 / 2 ^ 150) \<le> y0"
    using v(2) by (simp_all add: abs_le_iff)
  have y: "- 1 < y0" "y0 < 1" using b e s r1 r2 by simp_all
  have ok: "fst (PWM_SetParams tg d freq duty) = XST_SUCCESS"
    by (rule SetParams_succeeds [OF rdy cf c1 cB f1 d100])
  show ?thesis
    using PWM_SetParams_success(1) [OF rdy ok] by (simp add: v(1) u32_of_fl_small [OF y])
qed

lemma SetParams_freq_zero:
  fixes clk :: u32
  assumes rdy: "IsReady d = XIL_COMPONENT_IS_READY"
    and cf: "clock_frequency d = fl_of_u32 binary32 clk" and c1: "1 \<le> uint clk"
  shows "SetParams_tlr0 d 0 = PInf" "fst (PWM_SetParams tg d 0 duty) = XST_INVALID_PARAM"
proof -
  obtain t where t: "timer_clock_period d = Fin t" "rel_err 3 (1 / of_int (uint clk)) t"
    using timer_clock_period_rel [OF cf c1] by blast
  have tp: "0 < t" using t(2) by (rule rel_err_pos)
  have p: "SetParams_pwm_period 0 = PInf"
    by (simp add: SetParams_pwm_period_def fl_of_u32_def fl_convert_def fl_inf_def)
  show i: "SetParams_tlr0 d 0 = PInf"
    using tp by (simp add: SetParams_tlr0_def p t(1) fl_sub_def fl_neg_def fl_inf_def less_imp_le)
  show "fst (PWM_SetParams tg d 0 duty) = XST_INVALID_PARAM"
    by (simp add: PWM_SetParams_status [OF rdy] i PWM_MAXCNT_def)
qed

lemma fl_of_u32_full_range:
  fixes clk :: u32
  assumes big: "2 ^ 32 - 128 \<le> uint clk"
  shows "fl_of_u32 binary32 clk = Fin 4294967296"
proof -
  define c where "c = uint clk"
  have c: "4294967168 \<le> c" "c < 4294967296"
    using big uint_lt2p [of clk] by (simp_all add: c_def)
  have dv: "c div 256 = 16777215" using c by presburger
  have md: "128 \<le> c mod 256" using c by presburger
  have "round_half_even (of_int c / of_int 256) =
    (let f = c div 256; r = c mod 256
     in if 2 * r < 256 then f else if 256 < 2 * r then f + 1 else if even f then f else f + 1)"
    by (rule round_half_even_of_int_div) simp
  then have rh: "round_half_even (of_int c / 256) = 16777216"
    using md by (simp add: Let_def dv)
  have lo: "(2147483648 :: rat) \<le> of_int c"
  proof -
    have "(of_int 2147483648 :: rat) \<le> of_int c" using c(1) by (simp only: of_int_le_iff)
    then show ?thesis by simp
  qed
  have hi: "(of_int c :: rat) < 4294967296"
  proof -
    have "(of_int c :: rat) < of_int 4294967296" using c(2) by (simp only: of_int_less_iff)
    then show ?thesis by simp
  qed
  have "fl_round binary32 (of_int c) = Fin (of_int 16777216 * pow2 (31 - int (precision binary32) + 1))"
  proof (rule fl_round_cert)
    show "pow2 31 \<le> of_int c" using lo by (simp add: pow2_def)
    show "of_int c < pow2 (31 + 1)" using hi by (simp add: pow2_def)
    show "emin binary32 \<le> 31" by (simp add: binary32_def)
    show "round_half_even (of_int c / pow2 (31 - int (precision binary32) + 1)) = 16777216"
      using rh by (simp add: binary32_def pow2_def)
    show "of_int 16777216 * pow2 (31 - int (precision binary32) + 1) < pow2 (emax binary32 + 1)"
      by (simp add: binary32_def pow2_def)
  qed
  then show ?thesis by (simp add: fl_of_u32_def c_def binary32_def pow2_def)
qed

lemma SetParams_full_range:
  fixes clk :: u32
  assumes rdy: "IsReady d = XIL_COMPONENT_IS_READY"
    and cf: "clock_frequency d = fl_of_u32 binary32 clk"
    and big: "2 ^ 32 - 128 \<le> uint clk"
  shows "SetParams_tlr0 d 1 = Fin 4294967296"
    "fst (PWM_SetParams tg d 1 duty) = XST_INVALID_PARAM"
proof -
  have c: "clock_frequency d = Fin 4294967296"
    using cf fl_of_u32_full_range [OF big] by simp
  show t: "SetParams_tlr0 d 1 = Fin 4294967296"
    by (simp add: SetParams_tlr0_def SetParams_pwm_period_def timer_clock_period_def c fl_eval
        fl_round_full_range_values)
  show "fst (PWM_SetParams tg d 1 duty) = XST_INVALID_PARAM"
    by (simp add: PWM_SetParams_status [OF rdy] t PWM_MAXCNT_def)
qed

lemma pwm_full_range_ready:
  "IsReady pwm_full_range = XIL_COMPONENT_IS_READY"
  "clock_frequency pwm_full_range = fl_of_u32 binary32 4294967295"
  unfolding pwm_full_range_def by (rule PWM_Initialize_success [OF pwm_reset_init])+

lemma pwm_100MHz_ready:
  "IsReady pwm_100MHz = XIL_COMPONENT_IS_READY"
  "clock_frequency pwm_100MHz = fl_of_u32 binary32 100000000"
  unfolding pwm_100MHz_def by (rule PWM_Initialize_success [OF pwm_reset_init])+

text \<open>
  C3. On a ready instance whose clock frequency \<open>PWM_Initialize\<close> has set to \<open>clk\<close>,
  \<open>PWM_SetParams\<close> returns \<open>XST_INVALID_PARAM\<close>, the driver's one status for an invalid duty
  cycle and for a count out of range, for every duty cycle above 100, whatever the clock
  and the frequency; for a frequency of 0 on a clock of at least 1 Hz, where the period
  count is infinite; and for a frequency of 1 Hz on a clock of \<open>2 ^ 32 - 128\<close> Hz or more,
  where the \<open>float\<close> period count is \<open>2 ^ 32\<close> although \<open>clk / freq - 2\<close> is below
  \<open>2 ^ 32 - 1\<close>. For a clock from 1 to \<open>2 ^ 32 - 2 ^ 14\<close> Hz, a frequency of at least 1 Hz
  and a duty cycle up to 100 it returns \<open>XST_SUCCESS\<close>. No negative count is rejected: when
  the duty count \<open>clk / freq * duty / 100 - 2\<close> is negative the duty register is written
  with 0, a duty count of 2 or more is stored as a positive count, and the period count is
  not tested for being negative: when \<open>clk / freq - 2\<close> is from \<open>- 1 / 2\<close> to 0 the period
  register is written with 0.
\<close>

theorem SetParams_status_by_input:
  fixes clk freq duty :: u32
  assumes rdy: "IsReady d = XIL_COMPONENT_IS_READY"
    and cf: "clock_frequency d = fl_of_u32 binary32 clk"
  shows
    "(100 < uint duty \<longrightarrow> fst (PWM_SetParams tg d freq duty) = XST_INVALID_PARAM) \<and>
     (1 \<le> uint clk \<and> freq = 0 \<longrightarrow> fst (PWM_SetParams tg d freq duty) = XST_INVALID_PARAM) \<and>
     (2 ^ 32 - 128 \<le> uint clk \<and> freq = 1 \<longrightarrow>
        fst (PWM_SetParams tg d freq duty) = XST_INVALID_PARAM) \<and>
     (1 \<le> uint clk \<and> uint clk \<le> 2 ^ 32 - 2 ^ 14 \<and> 1 \<le> uint freq \<and> uint duty \<le> 100 \<longrightarrow>
        fst (PWM_SetParams tg d freq duty) = XST_SUCCESS \<and>
        (uint clk * uint duty < 200 * uint freq \<longrightarrow>
           TLR1 (snd (PWM_SetParams tg d freq duty)) = 0) \<and>
        (400 * uint freq \<le> uint clk * uint duty \<longrightarrow>
           1 \<le> uint (TLR1 (snd (PWM_SetParams tg d freq duty)))) \<and>
        (3 * uint freq \<le> 2 * uint clk \<and> uint clk < 2 * uint freq \<longrightarrow>
           TLR0 (snd (PWM_SetParams tg d freq duty)) = 0))"
proof (intro conjI impI)
  assume "100 < uint duty"
  then have "100 < duty" by (simp add: word_less_def)
  then show "fst (PWM_SetParams tg d freq duty) = XST_INVALID_PARAM"
    by (simp add: PWM_SetParams_status [OF rdy])
next
  assume "1 \<le> uint clk \<and> freq = 0"
  then show "fst (PWM_SetParams tg d freq duty) = XST_INVALID_PARAM"
    using SetParams_freq_zero(2) [OF rdy cf] by simp
next
  assume "2 ^ 32 - 128 \<le> uint clk \<and> freq = 1"
  then show "fst (PWM_SetParams tg d freq duty) = XST_INVALID_PARAM"
    using SetParams_full_range(2) [OF rdy cf] by simp
next
  assume a: "1 \<le> uint clk \<and> uint clk \<le> 2 ^ 32 - 2 ^ 14 \<and> 1 \<le> uint freq \<and> uint duty \<le> 100"
  then show "fst (PWM_SetParams tg d freq duty) = XST_SUCCESS"
    by (intro SetParams_succeeds [OF rdy cf]) simp_all
next
  assume a: "1 \<le> uint clk \<and> uint clk \<le> 2 ^ 32 - 2 ^ 14 \<and> 1 \<le> uint freq \<and> uint duty \<le> 100"
    and b: "uint clk * uint duty < 200 * uint freq"
  from a b show "TLR1 (snd (PWM_SetParams tg d freq duty)) = 0"
    by (intro SetParams_duty_zero [OF rdy cf]) simp_all
next
  assume a: "1 \<le> uint clk \<and> uint clk \<le> 2 ^ 32 - 2 ^ 14 \<and> 1 \<le> uint freq \<and> uint duty \<le> 100"
    and b: "400 * uint freq \<le> uint clk * uint duty"
  from a b show "1 \<le> uint (TLR1 (snd (PWM_SetParams tg d freq duty)))"
    by (intro SetParams_duty_stored [OF rdy cf]) simp_all
next
  assume a: "1 \<le> uint clk \<and> uint clk \<le> 2 ^ 32 - 2 ^ 14 \<and> 1 \<le> uint freq \<and> uint duty \<le> 100"
    and b: "3 * uint freq \<le> 2 * uint clk \<and> uint clk < 2 * uint freq"
  from a b show "TLR0 (snd (PWM_SetParams tg d freq duty)) = 0"
    by (intro SetParams_period_zero [OF rdy cf]) simp_all
qed

theorem SetParams_status_by_input_witness:
  "\<forall>tg.
     IsReady pwm_1024 = XIL_COMPONENT_IS_READY \<and>
     clock_frequency pwm_1024 = fl_of_u32 binary32 1024 \<and>
     IsReady pwm_full_range = XIL_COMPONENT_IS_READY \<and>
     clock_frequency pwm_full_range = fl_of_u32 binary32 4294967295 \<and>
     IsReady pwm_100MHz = XIL_COMPONENT_IS_READY \<and>
     clock_frequency pwm_100MHz = fl_of_u32 binary32 100000000 \<and>
     (100 :: int) < uint (101 :: u32) \<and>
     fst (PWM_SetParams tg pwm_1024 256 101) = XST_INVALID_PARAM \<and>
     (1 :: int) \<le> uint (1024 :: u32) \<and>
     fst (PWM_SetParams tg pwm_1024 0 50) = XST_INVALID_PARAM \<and>
     (2 ^ 32 - 128 :: int) \<le> uint (4294967295 :: u32) \<and>
     fst (PWM_SetParams tg pwm_full_range 1 50) = XST_INVALID_PARAM \<and>
     uint (1024 :: u32) \<le> 2 ^ 32 - 2 ^ 14 \<and> (1 :: int) \<le> uint (600 :: u32) \<and>
     uint (50 :: u32) \<le> 100 \<and>
     uint (1024 :: u32) * uint (50 :: u32) < 200 * uint (600 :: u32) \<and>
     3 * uint (600 :: u32) \<le> 2 * uint (1024 :: u32) \<and>
     uint (1024 :: u32) < 2 * uint (600 :: u32) \<and>
     fst (PWM_SetParams tg pwm_1024 600 50) = XST_SUCCESS \<and>
     TLR1 (snd (PWM_SetParams tg pwm_1024 600 50)) = 0 \<and>
     TLR0 (snd (PWM_SetParams tg pwm_1024 600 50)) = 0 \<and>
     (1 :: int) \<le> uint (100000000 :: u32) \<and> uint (100000000 :: u32) \<le> 2 ^ 32 - 2 ^ 14 \<and>
     (1 :: int) \<le> uint (50 :: u32) \<and> uint (7 :: u32) \<le> 100 \<and>
     400 * uint (50 :: u32) \<le> uint (100000000 :: u32) * uint (7 :: u32) \<and>
     fst (PWM_SetParams tg pwm_100MHz 50 7) = XST_SUCCESS \<and>
     1 \<le> uint (TLR1 (snd (PWM_SetParams tg pwm_100MHz 50 7)))"
  (is "\<forall>tg. ?P tg")
proof
  fix tg
  note a = pwm_1024_ready(1,2)
  note b = pwm_full_range_ready
  note c = pwm_100MHz_ready
  have h: "(100 :: int) < uint (101 :: u32)" "(1 :: int) \<le> uint (1024 :: u32)"
    "(2 ^ 32 - 128 :: int) \<le> uint (4294967295 :: u32)"
    "uint (1024 :: u32) \<le> 2 ^ 32 - 2 ^ 14" "(1 :: int) \<le> uint (600 :: u32)"
    "uint (50 :: u32) \<le> 100"
    "uint (1024 :: u32) * uint (50 :: u32) < 200 * uint (600 :: u32)"
    "3 * uint (600 :: u32) \<le> 2 * uint (1024 :: u32)"
    "uint (1024 :: u32) < 2 * uint (600 :: u32)"
    "(1 :: int) \<le> uint (100000000 :: u32)" "uint (100000000 :: u32) \<le> 2 ^ 32 - 2 ^ 14"
    "(1 :: int) \<le> uint (50 :: u32)" "uint (7 :: u32) \<le> 100"
    "400 * uint (50 :: u32) \<le> uint (100000000 :: u32) * uint (7 :: u32)"
    by simp_all
  from SetParams_status_by_input [OF a, of 101 tg 256] h
  have 1: "fst (PWM_SetParams tg pwm_1024 256 101) = XST_INVALID_PARAM" by blast
  from SetParams_status_by_input [OF a, of 50 tg 0] h
  have 2: "fst (PWM_SetParams tg pwm_1024 0 50) = XST_INVALID_PARAM" by blast
  from SetParams_status_by_input [OF b, of 50 tg 1] h
  have 3: "fst (PWM_SetParams tg pwm_full_range 1 50) = XST_INVALID_PARAM" by blast
  from SetParams_status_by_input [OF a, of 50 tg 600] h
  have 4: "fst (PWM_SetParams tg pwm_1024 600 50) = XST_SUCCESS"
    "TLR1 (snd (PWM_SetParams tg pwm_1024 600 50)) = 0"
    "TLR0 (snd (PWM_SetParams tg pwm_1024 600 50)) = 0" by blast+
  from SetParams_status_by_input [OF c, of 7 tg 50] h
  have 5: "fst (PWM_SetParams tg pwm_100MHz 50 7) = XST_SUCCESS"
    "1 \<le> uint (TLR1 (snd (PWM_SetParams tg pwm_100MHz 50 7)))" by blast+
  from a b c h 1 2 3 4 5 show "?P tg" by blast
qed

text \<open>
  At a clock of \<open>2 ^ 32 - 1\<close> Hz, a frequency of 1 Hz and a duty cycle of 0 the call fails
  although \<open>clk / freq - 2 = 2 ^ 32 - 3\<close> does not exceed \<open>2 ^ 32 - 1\<close>. At a clock of
  1024 Hz, a frequency of 600 Hz and a duty cycle of 50 the period count is
  \<open>1024 / 600 - 2\<close>, about \<open>- 0.29\<close>; the call succeeds and the period register is written
  with 0, a second silent correction beside the one of the duty count.
\<close>

lemma fl_round_600_values:
  "fl_round binary64 600 = Fin 600"
  "fl_round binary64 (1 / 600) = Fin (7686143364045647 / 4611686018427387904)"
  "fl_round binary32 (7686143364045647 / 4611686018427387904) = Fin (7158279 / 4294967296)"
  "fl_round binary32 (7158279 / 4194304) = Fin (7158279 / 4194304)"
  "fl_round binary32 (- (1230329 / 4194304)) = Fin (- (1230329 / 4194304))"
  using fl_round_binary64_exact [of 600 600 0]
    fl_round_cert [where fmt = binary64 and e = "- 10" and x = "1 / 600" and m = 7686143364045647]
    fl_round_cert [where fmt = binary32 and e = "- 10"
      and x = "7686143364045647 / 4611686018427387904" and m = 14316558]
    fl_round_binary32_exact [of "7158279 / 4194304" 7158279 "- 22"]
    fl_round_binary32_exact [of "- (1230329 / 4194304)" "- 1230329" "- 22"]
  by (simp_all add: binary32_def binary64_def pow2_def round_half_even_numeral Let_def)

lemma SetParams_tlr0_1024_600:
  assumes "clock_frequency d = Fin 1024"
  shows "SetParams_tlr0 d 600 = Fin (- (1230329 / 4194304))"
  using assms
  by (simp add: SetParams_tlr0_def SetParams_pwm_period_def timer_clock_period_1024 fl_eval
      fl_round_600_values)

theorem SetParams_status_counterexample:
  "IsReady pwm_full_range = XIL_COMPONENT_IS_READY \<and>
   clock_frequency pwm_full_range = fl_of_u32 binary32 4294967295 \<and>
   uint (0 :: u32) \<le> 100 \<and>
   \<not> (2 ^ 32 - 1 :: rat) < of_int (uint (4294967295 :: u32)) / of_int (uint (1 :: u32)) - 2 \<and>
   fst (PWM_SetParams target_zero pwm_full_range 1 0) = XST_INVALID_PARAM \<and>
   IsReady pwm_1024 = XIL_COMPONENT_IS_READY \<and>
   clock_frequency pwm_1024 = fl_of_u32 binary32 1024 \<and>
   uint (50 :: u32) \<le> 100 \<and>
   SetParams_tlr0 pwm_1024 600 = Fin (- (1230329 / 4194304)) \<and>
   fst (PWM_SetParams target_zero pwm_1024 600 50) = XST_SUCCESS \<and>
   TLR0 (snd (PWM_SetParams target_zero pwm_1024 600 50)) = 0"
proof -
  note a = pwm_1024_ready
  note b = pwm_full_range_ready
  have h: "uint (0 :: u32) \<le> 100" "uint (50 :: u32) \<le> 100"
    "\<not> (2 ^ 32 - 1 :: rat) < of_int (uint (4294967295 :: u32)) / of_int (uint (1 :: u32)) - 2"
    by simp_all
  have 1: "fst (PWM_SetParams target_zero pwm_full_range 1 0) = XST_INVALID_PARAM"
    by (rule SetParams_full_range_clock(2) [OF b])
  have t: "SetParams_tlr0 pwm_1024 600 = Fin (- (1230329 / 4194304))"
    by (rule SetParams_tlr0_1024_600 [OF a(3)])
  have c: "(1 :: int) \<le> uint (1024 :: u32)" "uint (1024 :: u32) \<le> 2 ^ 32 - 2 ^ 14"
    "(1 :: int) \<le> uint (600 :: u32)" "3 * uint (600 :: u32) \<le> 2 * uint (1024 :: u32)"
    "uint (1024 :: u32) < 2 * uint (600 :: u32)" by simp_all
  have 2: "fst (PWM_SetParams target_zero pwm_1024 600 50) = XST_SUCCESS"
    by (rule SetParams_succeeds [OF a(1,2) c(1,2,3) h(2)])
  have 3: "TLR0 (snd (PWM_SetParams target_zero pwm_1024 600 50)) = 0"
    by (rule SetParams_period_zero [OF a(1,2) c(1,2,3) h(2) c(4,5)])
  from a(1,2) b h 1 t 2 3 show ?thesis by blast
qed

section \<open>The driver state after PWM_SetParams\<close>

text \<open>
  \<open>PWM_Start\<close> starts the timers by the enable-all bit of the period timer's control/status
  register; \<open>PWM_Stop\<close> clears the enable bit of each timer by read-modify-write and writes
  every other bit back. So an instance is \<open>Stopped\<close> after \<open>PWM_Stop\<close> or after a successful
  \<open>PWM_SetParams\<close> exactly when the enable-all bit was clear before the call. The load and
  control registers are the same after a repeated \<open>PWM_SetParams\<close>.
\<close>

lemma pwm_1024_regs:
  "IsReady pwm_1024 = XIL_COMPONENT_IS_READY" "TCSR0 pwm_1024 = 0x216" "TCSR1 pwm_1024 = 0x216"
  "TLR0 pwm_1024 = 0" "TLR1 pwm_1024 = 0" "clock_frequency pwm_1024 = Fin 1024"
  by (simp_all add: pwm_1024_def PWM_Initialize_def XTmrCtr_Initialize_def Let_def split_beta
      pwm_reset_def XTmrCtr_ReadReg_def XTmrCtr_WriteReg_def XTmrCtr_SetControlStatusReg_def
      XTC_CSR_ENABLE_TMR_MASK_def XTC_CSR_ENABLE_PWM_MASK_def XTC_CSR_EXT_GENERATE_MASK_def
      XTC_CSR_AUTO_RELOAD_MASK_def XTC_CSR_DOWN_COUNT_MASK_def fl_of_u32_def fl_eval)

lemma PWM_Start_regs:
  assumes "IsReady d = XIL_COMPONENT_IS_READY"
  shows "fst (PWM_Start d) = XST_SUCCESS"
    "TCSR0 (snd (PWM_Start d)) =
       ((TCSR0 d OR XTC_CSR_LOAD_MASK) AND 0xFFFFFFDF) OR XTC_CSR_ENABLE_ALL_MASK"
    "TCSR1 (snd (PWM_Start d)) = ((TCSR0 d OR XTC_CSR_LOAD_MASK) AND 0xFFFFFFDF) AND 0xFFFFFFDF"
    "TLR0 (snd (PWM_Start d)) = TLR0 d" "TLR1 (snd (PWM_Start d)) = TLR1 d"
    "IsReady (snd (PWM_Start d)) = IsReady d"
    "clock_frequency (snd (PWM_Start d)) = clock_frequency d"
  using assms
  by (simp_all add: PWM_Start_def Let_def split_beta XTmrCtr_LoadTimerCounterReg_def
      XTmrCtr_GetControlStatusReg_def XTmrCtr_SetControlStatusReg_def XTmrCtr_ReadReg_def
      XTmrCtr_WriteReg_def)

lemma or_mask_and_nonzero:
  fixes x k m :: u32
  assumes "(x OR m) AND (k OR m) = 0"
  shows "m = 0"
proof -
  have "\<not> bit m n" for n
  proof
    assume "bit m n"
    then have "bit ((x OR m) AND (k OR m)) n" by (simp add: bit_and_iff bit_or_iff)
    with assms show False by simp
  qed
  then show ?thesis by (simp add: bit_eq_iff)
qed

lemma and_not_and_or:
  fixes x t a :: u32
  assumes "t AND a = 0"
  shows "((x AND NOT t) AND (t OR a) = 0) = (x AND a = 0)"
proof -
  have d: "\<not> (bit t n \<and> bit a n)" for n
  proof
    assume "bit t n \<and> bit a n"
    then have "bit (t AND a) n" by (simp add: bit_and_iff)
    with assms show False by simp
  qed
  have "(x AND NOT t) AND (t OR a) = x AND a"
    by (rule bit_eqI) (use d in \<open>auto simp add: bit_and_iff bit_or_iff bit_not_iff\<close>)
  then show ?thesis by simp
qed

lemma Stopped_after_Initialize:
  assumes "fst (PWM_Initialize found d en clkfreq) = XST_SUCCESS"
  shows "Stopped (snd (PWM_Initialize found d en clkfreq))"
  using assms
  by (simp add: Stopped_def PWM_Initialize_def XTmrCtr_Initialize_def Let_def split_beta
      XTmrCtr_ReadReg_def XTmrCtr_WriteReg_def XTmrCtr_SetControlStatusReg_def
      XTC_CSR_ENABLE_TMR_MASK_def XTC_CSR_ENABLE_PWM_MASK_def XTC_CSR_EXT_GENERATE_MASK_def
      XTC_CSR_AUTO_RELOAD_MASK_def XTC_CSR_DOWN_COUNT_MASK_def XTC_CSR_ENABLE_INT_MASK_def
      XTC_CSR_ENABLE_ALL_MASK_def split: if_splits)

lemma PWM_Start_not_Stopped:
  assumes "IsReady d = XIL_COMPONENT_IS_READY"
  shows "\<not> Stopped (snd (PWM_Start d))"
proof
  assume "Stopped (snd (PWM_Start d))"
  then have "((TCSR0 d OR XTC_CSR_LOAD_MASK) AND 0xFFFFFFDF OR XTC_CSR_ENABLE_ALL_MASK) AND
      (XTC_CSR_ENABLE_TMR_MASK OR XTC_CSR_ENABLE_ALL_MASK) = 0"
    unfolding Stopped_def PWM_Start_regs(2) [OF assms] by (rule conjunct1)
  then have "XTC_CSR_ENABLE_ALL_MASK = 0" by (rule or_mask_and_nonzero)
  then show False by (simp add: XTC_CSR_ENABLE_ALL_MASK_def)
qed

lemma PWM_Stop_Stopped_iff:
  assumes "IsReady d = XIL_COMPONENT_IS_READY"
  shows "Stopped (snd (PWM_Stop d)) =
    (TCSR0 d AND XTC_CSR_ENABLE_ALL_MASK = 0 \<and> TCSR1 d AND XTC_CSR_ENABLE_ALL_MASK = 0)"
proof -
  have m: "XTC_CSR_ENABLE_TMR_MASK AND XTC_CSR_ENABLE_ALL_MASK = 0"
    by (simp add: XTC_CSR_ENABLE_TMR_MASK_def XTC_CSR_ENABLE_ALL_MASK_def)
  show ?thesis
    unfolding Stopped_def PWM_Stop_regs(2,3) [OF assms] and_not_and_or [OF m] ..
qed

lemma PWM_SetParams_Stopped_iff:
  assumes "IsReady d = XIL_COMPONENT_IS_READY"
    and "fst (PWM_SetParams tg d freq dutyfactor) = XST_SUCCESS"
  shows "Stopped (snd (PWM_SetParams tg d freq dutyfactor)) =
    (TCSR0 d AND XTC_CSR_ENABLE_ALL_MASK = 0 \<and> TCSR1 d AND XTC_CSR_ENABLE_ALL_MASK = 0)"
proof -
  have m: "XTC_CSR_ENABLE_TMR_MASK AND XTC_CSR_ENABLE_ALL_MASK = 0"
    by (simp add: XTC_CSR_ENABLE_TMR_MASK_def XTC_CSR_ENABLE_ALL_MASK_def)
  show ?thesis
    unfolding Stopped_def PWM_SetParams_success(3,4) [OF assms] and_not_and_or [OF m] ..
qed

lemma SetParams_registers_repeat:
  assumes rdy: "IsReady d = XIL_COMPONENT_IS_READY"
    and ok: "fst (PWM_SetParams tg d freq dutyfactor) = XST_SUCCESS"
  defines "d1 \<equiv> snd (PWM_SetParams tg d freq dutyfactor)"
  shows "fst (PWM_SetParams tg d1 freq dutyfactor) = XST_SUCCESS"
    "TLR0 (snd (PWM_SetParams tg d1 freq dutyfactor)) = TLR0 d1"
    "TLR1 (snd (PWM_SetParams tg d1 freq dutyfactor)) = TLR1 d1"
    "TCSR0 (snd (PWM_SetParams tg d1 freq dutyfactor)) = TCSR0 d1"
    "TCSR1 (snd (PWM_SetParams tg d1 freq dutyfactor)) = TCSR1 d1"
proof -
  note s1 = PWM_SetParams_success [OF rdy ok, folded d1_def]
  have rdy1: "IsReady d1 = XIL_COMPONENT_IS_READY" using s1(5) rdy by simp
  have t0: "SetParams_tlr0 d1 freq = SetParams_tlr0 d freq"
    by (rule SetParams_tlr_clock(1)) (rule s1(6))
  have t1: "SetParams_tlr1 d1 freq dutyfactor = SetParams_tlr1 d freq dutyfactor"
    by (rule SetParams_tlr_clock(2)) (rule s1(6))
  show ok2: "fst (PWM_SetParams tg d1 freq dutyfactor) = XST_SUCCESS"
    using s1(7-9) by (simp add: PWM_SetParams_status [OF rdy1] t0 t1)
  note s2 = PWM_SetParams_success [OF rdy1 ok2]
  show "TLR0 (snd (PWM_SetParams tg d1 freq dutyfactor)) = TLR0 d1"
    "TLR1 (snd (PWM_SetParams tg d1 freq dutyfactor)) = TLR1 d1"
    using s2(1,2) s1(1,2) t0 t1 by simp_all
  show "TCSR0 (snd (PWM_SetParams tg d1 freq dutyfactor)) = TCSR0 d1"
    "TCSR1 (snd (PWM_SetParams tg d1 freq dutyfactor)) = TCSR1 d1"
    using s2(3,4) s1(3,4) by (simp_all add: and_not_mask_idem)
qed

lemma pwm_started_regs:
  "IsReady pwm_started = XIL_COMPONENT_IS_READY" "TCSR0 pwm_started = 0x616"
  "TCSR1 pwm_started = 0x216" "clock_frequency pwm_started = Fin 1024"
  unfolding pwm_started_def
  by (simp_all add: PWM_Start_regs [OF pwm_1024_regs(1)] pwm_1024_regs XTC_CSR_LOAD_MASK_def
      XTC_CSR_ENABLE_ALL_MASK_def)

text \<open>
  C7. Calling \<open>PWM_SetParams\<close> twice with the same arguments leaves the same load registers
  after each call, and should leave the driver stopped after each call. On the instance
  initialised with a 1024 Hz clock, which is \<open>Stopped\<close>, \<open>PWM_Start\<close> leaves the control/status
  registers at \<open>0x616\<close> and \<open>0x216\<close>: the enable-all bit \<open>0x400\<close> is set and the instance
  is not \<open>Stopped\<close>. \<open>PWM_SetParams\<close> with 256 Hz and a duty cycle of 50 then succeeds and
  stores 2 and 0 in the load registers, both times, but the control/status registers are
  still \<open>0x616\<close> and \<open>0x216\<close>: the instance is not \<open>Stopped\<close> after the first call nor after
  the second.
\<close>

theorem SetParams_leaves_started:
  "Stopped pwm_1024 \<and> fst (PWM_Start pwm_1024) = XST_SUCCESS \<and> \<not> Stopped pwm_started \<and>
   TCSR0 pwm_started = 0x616 \<and> TCSR1 pwm_started = 0x216 \<and>
   fst (PWM_SetParams target_zero pwm_started 256 50) = XST_SUCCESS \<and>
   TLR0 (snd (PWM_SetParams target_zero pwm_started 256 50)) = 2 \<and>
   TLR1 (snd (PWM_SetParams target_zero pwm_started 256 50)) = 0 \<and>
   TCSR0 (snd (PWM_SetParams target_zero pwm_started 256 50)) = 0x616 \<and>
   TCSR1 (snd (PWM_SetParams target_zero pwm_started 256 50)) = 0x216 \<and>
   \<not> Stopped (snd (PWM_SetParams target_zero pwm_started 256 50)) \<and>
   fst (PWM_SetParams target_zero (snd (PWM_SetParams target_zero pwm_started 256 50)) 256 50) =
     XST_SUCCESS \<and>
   TLR0 (snd (PWM_SetParams target_zero
     (snd (PWM_SetParams target_zero pwm_started 256 50)) 256 50)) = 2 \<and>
   TLR1 (snd (PWM_SetParams target_zero
     (snd (PWM_SetParams target_zero pwm_started 256 50)) 256 50)) = 0 \<and>
   \<not> Stopped (snd (PWM_SetParams target_zero
     (snd (PWM_SetParams target_zero pwm_started 256 50)) 256 50))"
proof -
  define d1 where "d1 = snd (PWM_SetParams target_zero pwm_started 256 50)"
  define d2 where "d2 = snd (PWM_SetParams target_zero d1 256 50)"
  note p = pwm_started_regs
  have i: "Stopped pwm_1024"
    unfolding pwm_1024_def by (rule Stopped_after_Initialize [OF pwm_reset_init])
  have st: "fst (PWM_Start pwm_1024) = XST_SUCCESS"
    by (rule PWM_Start_regs(1) [OF pwm_1024_regs(1)])
  have ns: "\<not> Stopped pwm_started"
    unfolding pwm_started_def by (rule PWM_Start_not_Stopped [OF pwm_1024_regs(1)])
  have ok: "fst (PWM_SetParams target_zero pwm_started 256 50) = XST_SUCCESS"
    by (simp add: PWM_SetParams_status [OF p(1)] SetParams_1024_256_50 [OF p(4)] PWM_MAXCNT_def)
  note s = PWM_SetParams_success [OF p(1) ok, folded d1_def]
  have r1: "TLR0 d1 = 2" "TLR1 d1 = 0" "TCSR0 d1 = 0x616" "TCSR1 d1 = 0x216"
    by (simp_all add: s(1-4) SetParams_1024_256_50 [OF p(4)] u32_of_fl_values p(2,3)
        XTC_CSR_ENABLE_TMR_MASK_def)
  have n1: "\<not> Stopped d1"
    unfolding d1_def PWM_SetParams_Stopped_iff [OF p(1) ok]
    by (simp add: p(2) XTC_CSR_ENABLE_ALL_MASK_def)
  note q = SetParams_registers_repeat [OF p(1) ok, folded d1_def]
  have r2: "fst (PWM_SetParams target_zero d1 256 50) = XST_SUCCESS" "TLR0 d2 = 2" "TLR1 d2 = 0"
    unfolding d2_def using q(1,2,3) r1(1,2) by simp_all
  have rdy1: "IsReady d1 = XIL_COMPONENT_IS_READY" using s(5) p(1) by simp
  have n2: "\<not> Stopped d2"
    unfolding d2_def PWM_SetParams_Stopped_iff [OF rdy1 r2(1)]
    by (simp add: r1(3) XTC_CSR_ENABLE_ALL_MASK_def)
  from i st ns p(2,3) ok r1 n1 r2 n2 show ?thesis unfolding d2_def d1_def by blast
qed

end
